theory Spec2Isabelle
  imports Main "HOL-Library.Word"
begin

section \<open>The volume manager of the kernel's filesystem layer\<close>

text \<open>
  The development embeds \<^verbatim>\<open>fs::VolumeManager\<close> (the file with \<^verbatim>\<open>FindVolume\<close>,
  \<^verbatim>\<open>MountSystemVolume\<close>, the two \<^verbatim>\<open>Mount\<close> overloads, \<^verbatim>\<open>Unmount\<close>,
  \<^verbatim>\<open>RegisterVolume\<close>, \<^verbatim>\<open>UnregisterVolume\<close> and \<^verbatim>\<open>SystemVolume\<close>).

  Pointers are addresses (\<open>nat\<close>); a pointer that may be null is an \<open>option\<close>.
  The objects behind \<^verbatim>\<open>FsVolume*\<close> live in a memory \<open>vol\<close> (address to object), so
  that two list entries holding the same pointer alias the same object.
  C strings are \<open>string\<close>s without an embedded NUL: \<^verbatim>\<open>strcmp(a, b) == 0\<close> is
  equality and \<^verbatim>\<open>strlen\<close> is \<open>length\<close>.
  The two \<^verbatim>\<open>int\<close> counters are 32-bit words read in two's complement (\<open>sint\<close>);
  \<open>+ 1\<close> on them wraps where C++ leaves the signed overflow undefined.
\<close>

subsection \<open>Data\<close>

text \<open>
  \<^verbatim>\<open>FsNode\<close> (its class is declared outside the sources): the address of the node
  and what \<^verbatim>\<open>IsCharDevice()\<close> answers, the one member the file reads.
\<close>

record FsNode =
  nodeAddr :: nat
  IsCharDevice :: bool

text \<open>
  \<^verbatim>\<open>FsVolume\<close> (declared in \<^verbatim>\<open>Fs/FsVolume.h\<close>, outside the sources), with the
  members the file uses: \<^verbatim>\<open>mountPointDirent.name\<close>, the ID written by
  \<^verbatim>\<open>SetVolumeID\<close>, and the pointer \<^verbatim>\<open>mountPoint\<close> (address of the mount-point
  node, or null).
\<close>

record FsVolume =
  mountPointDirent_name :: string
  volumeID :: "32 word"
  mountPoint :: "nat option"

text \<open>
  Modelled from the spec: the error-code enumeration (\<^verbatim>\<open>VolumeManager.h\<close> is not among
  the sources). The source returns the literal \<^verbatim>\<open>0\<close> on success and tests
  \<^verbatim>\<open>!ret\<close>; \<open>Ok\<close> is that 0 and the four error constants are the other members
  of the spec's closed enumeration, all different from 0.
\<close>

datatype errcode =
    Ok
  | VolumeErrorMisc
  | VolumeErrorNotDevice
  | VolumeErrorInvalidFilesystem
  | VolumeErrorVolumeNotFound

text \<open>The four \<^verbatim>\<open>assert\<close>s of the file; a failed one terminates the process.\<close>

datatype panic =
    Assert_devFS
  | Assert_Identify
  | Assert_strlen_NAME_MAX
  | Assert_systemVolume

text \<open>
  Calls that leave the volume manager, in the order they are made: the directory reads
  of the boot scan, the identification service, the two operations of a driver, and
  the error log.
\<close>

datatype call =
    ReadDir_call nat
  | FindDir_call string
  | IdentifyFilesystem_call FsNode
  | Identify_call FsNode
  | DriverMount_call FsNode string
  | LogError string

text \<open>
  \<^verbatim>\<open>FsDriver\<close>: \<^verbatim>\<open>Identify(device)\<close> is a probe; \<^verbatim>\<open>Mount(device, name)\<close> returns a
  pointer to a volume or null, and may build or change volume objects in memory.
\<close>

record FsDriver =
  Identify :: "FsNode \<Rightarrow> bool"
  DriverMount :: "FsNode \<Rightarrow> string \<Rightarrow> (nat \<Rightarrow> FsVolume) \<Rightarrow> nat option \<times> (nat \<Rightarrow> FsVolume)"

text \<open>
  The services of the filesystem layer the volume manager calls:
  \<^verbatim>\<open>fs::ResolvePath("/dev")\<close> (\<open>None\<close> when it does not resolve, else the names
  \<^verbatim>\<open>fs::ReadDir\<close> yields, by index), \<^verbatim>\<open>fs::FindDir\<close> on that directory,
  \<^verbatim>\<open>fs::IdentifyFilesystem\<close> and \<^verbatim>\<open>fs::GetRoot()\<close>. None of them is among the
  sources, so they are parameters of the model. Modelled from the spec:
  \<^verbatim>\<open>ReadDir(dir, entry, index)\<close> re-reads the directory by index and returns false
  once it is exhausted, so the directory is the finite list of its entry names and
  \<^verbatim>\<open>ReadDir\<close> succeeds exactly on the indices below its length.
\<close>

record env =
  devFS :: "string list option"
  FindDir :: "string \<Rightarrow> FsNode option"
  IdentifyFilesystem :: "FsNode \<Rightarrow> FsDriver option"
  GetRoot :: nat

text \<open>
  The globals of the namespace (\<open>systemVolume\<close>, \<open>volumes\<close>, \<open>nextVolumeID\<close>,
  \<open>nextVolumeName\<close>), the memory of the volume objects, the \<^verbatim>\<open>parent\<close> pointers
  of the mount-point nodes, and the calls made so far. The lock
  \<open>volumeManagerLock\<close> is never taken by the file and is left out.

  \<open>volumes\<close> is the list \<^verbatim>\<open>Initialize()\<close> allocated: a state of this type is a
  registry on which \<^verbatim>\<open>Initialize()\<close> has run, as the spec requires before any other
  operation. Modelled from the spec: the container \<^verbatim>\<open>List<FsVolume*>\<close> (its header is
  not among the sources) is an ordered sequence; \<^verbatim>\<open>add_back\<close> appends,
  \<^verbatim>\<open>remove(it)\<close> deletes the entry the iterator stands on, and iteration runs from
  the front.
\<close>

record kernel =
  systemVolume :: "nat option"
  volumes :: "nat list"
  nextVolumeID :: "32 word"
  nextVolumeName :: "32 word"
  vol :: "nat \<Rightarrow> FsVolume"
  parent :: "nat \<Rightarrow> nat option"
  calls :: "call list"

text \<open>
  Modelled from the spec: \<^verbatim>\<open>NAME_MAX\<close>, the maximum name length (its header is not
  among the sources); 255 as in the POSIX limits.
\<close>

definition NAME_MAX :: nat where
  "NAME_MAX = 255"

text \<open>
  Modelled from the spec: \<^verbatim>\<open>itoa(num, str, 10)\<close> (\<^verbatim>\<open>String.h\<close> is not among the
  sources) writes the decimal digits of \<open>num\<close>. Its callers in the logger pass an
  \<^verbatim>\<open>unsigned long long\<close> and print a minus sign themselves, so the argument is a
  64-bit unsigned value.
\<close>

fun decimal :: "nat \<Rightarrow> string" where
  "decimal n = (if n < 10 then [''0123456789'' ! n]
                else decimal (n div 10) @ [''0123456789'' ! (n mod 10)])"

definition itoa :: "64 word \<Rightarrow> string" where
  "itoa num = decimal (unat num)"

subsection \<open>Operations\<close>

text \<open>
  The static initialisers of the globals followed by \<^verbatim>\<open>Initialize()\<close>, on a machine
  with the given volume memory and parent pointers.
\<close>

definition Initialize :: "(nat \<Rightarrow> FsVolume) \<Rightarrow> (nat \<Rightarrow> nat option) \<Rightarrow> kernel" where
  "Initialize mem par =
     \<lparr>systemVolume = None, volumes = [], nextVolumeID = 1, nextVolumeName = 0,
      vol = mem, parent = par, calls = []\<rparr>"

definition log_call :: "call \<Rightarrow> kernel \<Rightarrow> kernel" where
  "log_call c s = s\<lparr>calls := calls s @ [c]\<rparr>"

fun FindVolume_loop :: "(nat \<Rightarrow> FsVolume) \<Rightarrow> nat list \<Rightarrow> string \<Rightarrow> nat option" where
  "FindVolume_loop mem [] name = None"
| "FindVolume_loop mem (volume # rest) name =
     (if mountPointDirent_name (mem volume) = name then Some volume
      else FindVolume_loop mem rest name)"

definition FindVolume :: "kernel \<Rightarrow> string \<Rightarrow> nat option" where
  "FindVolume s name = FindVolume_loop (vol s) (volumes s) name"

definition RegisterVolume :: "env \<Rightarrow> nat \<Rightarrow> kernel \<Rightarrow> kernel" where
  "RegisterVolume e volume s =
     (let s1 = s\<lparr>vol := (vol s)(volume := (vol s volume)\<lparr>volumeID := nextVolumeID s\<rparr>),
                 nextVolumeID := nextVolumeID s + 1\<rparr>;
          s2 = (case mountPoint (vol s1 volume) of
                  None \<Rightarrow> s1
                | Some mp \<Rightarrow> s1\<lparr>parent := (parent s1)(mp := Some (GetRoot e))\<rparr>)
      in s2\<lparr>volumes := volumes s2 @ [volume]\<rparr>)"

fun UnregisterVolume_loop :: "nat list \<Rightarrow> nat \<Rightarrow> nat list option" where
  "UnregisterVolume_loop [] volume = None"
| "UnregisterVolume_loop (x # rest) volume =
     (if x = volume then Some rest
      else map_option (Cons x) (UnregisterVolume_loop rest volume))"

definition UnregisterVolume :: "nat \<Rightarrow> kernel \<Rightarrow> errcode \<times> kernel" where
  "UnregisterVolume volume s =
     (case UnregisterVolume_loop (volumes s) volume of
        Some vs \<Rightarrow> (Ok, s\<lparr>volumes := vs\<rparr>)
      | None \<Rightarrow> (VolumeErrorVolumeNotFound, s))"

fun Unmount_loop :: "nat list \<Rightarrow> string \<Rightarrow> kernel \<Rightarrow> errcode \<times> kernel" where
  "Unmount_loop [] name s = (VolumeErrorVolumeNotFound, s)"
| "Unmount_loop (it # rest) name s =
     (if mountPointDirent_name (vol s it) = name then (Ok, snd (UnregisterVolume it s))
      else Unmount_loop rest name s)"

definition Unmount :: "string \<Rightarrow> kernel \<Rightarrow> errcode \<times> kernel" where
  "Unmount name s = Unmount_loop (volumes s) name s"

text \<open>
  The tail of the explicit-driver \<^verbatim>\<open>Mount\<close>, common to its two branches: the call
  \<^verbatim>\<open>driver->Mount(device, name)\<close>, the null check and \<^verbatim>\<open>RegisterVolume\<close>.
\<close>

definition Mount_finish :: "env \<Rightarrow> FsNode \<Rightarrow> FsDriver \<Rightarrow> string \<Rightarrow> kernel \<Rightarrow> errcode \<times> kernel" where
  "Mount_finish e device driver name s =
     (case DriverMount driver device name (vol s) of (r, mem) \<Rightarrow>
        (let s1 = log_call (DriverMount_call device name) (s\<lparr>vol := mem\<rparr>)
         in case r of
              None \<Rightarrow>
                (VolumeErrorMisc,
                 log_call (LogError ''fs::VolumeManager::Mount: Unknown driver error mounting volume!'') s1)
            | Some v \<Rightarrow> (Ok, RegisterVolume e v s1)))"

text \<open>\<^verbatim>\<open>int Mount(FsNode* device, ::fs::FsDriver* driver, const char* name)\<close>\<close>

definition Mount_driver ::
    "env \<Rightarrow> FsNode \<Rightarrow> FsDriver \<Rightarrow> string option \<Rightarrow> kernel \<Rightarrow> panic + errcode \<times> kernel" where
  "Mount_driver e device driver name s =
     (if \<not> IsCharDevice device then
        Inr (VolumeErrorNotDevice, log_call (LogError ''Fs::VolumeManager::Mount: Not a device!'') s)
      else if \<not> Identify driver device then Inl Assert_Identify
      else
        (let s1 = log_call (Identify_call device) s
         in case name of
              Some n \<Rightarrow>
                if \<not> length n < NAME_MAX then Inl Assert_strlen_NAME_MAX
                else Inr (Mount_finish e device driver n s1)
            | None \<Rightarrow>
                Inr (Mount_finish e device driver
                       (''volume'' @ itoa (scast (nextVolumeName s1)))
                       (s1\<lparr>nextVolumeName := nextVolumeName s1 + 1\<rparr>))))"

text \<open>\<^verbatim>\<open>int Mount(FsNode* device, const char* name)\<close>\<close>

definition Mount_auto ::
    "env \<Rightarrow> FsNode \<Rightarrow> string option \<Rightarrow> kernel \<Rightarrow> panic + errcode \<times> kernel" where
  "Mount_auto e device name s =
     (if \<not> IsCharDevice device then
        Inr (VolumeErrorNotDevice, log_call (LogError ''Fs::VolumeManager::Mount: Not a device!'') s)
      else
        (let s1 = log_call (IdentifyFilesystem_call device) s
         in case IdentifyFilesystem e device of
              None \<Rightarrow>
                Inr (VolumeErrorInvalidFilesystem,
                     log_call (LogError ''Fs::VolumeManager::Mount: Not filesystem for device!'') s1)
            | Some driver \<Rightarrow> Mount_driver e device driver name s1))"

text \<open>
  The body of the \<^verbatim>\<open>while\<close> loop of \<^verbatim>\<open>MountSystemVolume\<close> for the entry named
  \<open>ent\<close>; \<open>True\<close> when the body executes \<^verbatim>\<open>return\<close>.
\<close>

definition MountSystemVolume_body :: "env \<Rightarrow> string \<Rightarrow> kernel \<Rightarrow> panic + bool \<times> kernel" where
  "MountSystemVolume_body e ent s =
     (let s1 = log_call (FindDir_call ent) s
      in case FindDir e ent of
           None \<Rightarrow> Inr (False, s1)
         | Some device \<Rightarrow>
             if \<not> IsCharDevice device then Inr (False, s1)
             else
               (let s2 = log_call (IdentifyFilesystem_call device) s1
                in case IdentifyFilesystem e device of
                     None \<Rightarrow> Inr (False, s2)
                   | Some drv \<Rightarrow>
                       (case Mount_driver e device drv (Some ''system'') s2 of
                          Inl a \<Rightarrow> Inl a
                        | Inr (ret, s3) \<Rightarrow> Inr (ret = Ok, s3))))"

text \<open>
  The loop \<^verbatim>\<open>while (fs::ReadDir(devFS, &ent, i++))\<close> over the entries \<open>ents\<close> of
  the directory, from index \<open>i\<close>; it returns the value of \<open>i\<close> on leaving.
\<close>

function MountSystemVolume_loop :: "env \<Rightarrow> string list \<Rightarrow> nat \<Rightarrow> kernel \<Rightarrow> panic + nat \<times> kernel" where
  "MountSystemVolume_loop e ents i s =
     (let s1 = log_call (ReadDir_call i) s
      in if i < length ents then
           (case MountSystemVolume_body e (ents ! i) s1 of
              Inl a \<Rightarrow> Inl a
            | Inr (True, s2) \<Rightarrow> Inr (i + 1, s2)
            | Inr (False, s2) \<Rightarrow> MountSystemVolume_loop e ents (i + 1) s2)
         else Inr (i + 1, s1))"
  by pat_completeness auto
termination
  by (relation "measure (\<lambda>(e, ents, i, s). length ents - i)") auto

declare MountSystemVolume_loop.simps [simp del]

definition MountSystemVolume :: "env \<Rightarrow> kernel \<Rightarrow> panic + kernel" where
  "MountSystemVolume e s =
     (case devFS e of
        None \<Rightarrow> Inl Assert_devFS
      | Some ents \<Rightarrow>
          (case MountSystemVolume_loop e ents 0 s of
             Inl a \<Rightarrow> Inl a
           | Inr (i, s') \<Rightarrow> Inr s'))"

definition SystemVolume :: "kernel \<Rightarrow> panic + nat" where
  "SystemVolume s = (case systemVolume s of None \<Rightarrow> Inl Assert_systemVolume | Some v \<Rightarrow> Inr v)"

text \<open>The name the explicit-driver \<^verbatim>\<open>Mount\<close> hands to the driver (the spec's \<open>resolvedName\<close>).\<close>

definition resolved_name :: "string option \<Rightarrow> kernel \<Rightarrow> string" where
  "resolved_name name s =
     (case name of Some n \<Rightarrow> n | None \<Rightarrow> ''volume'' @ itoa (scast (nextVolumeName s)))"

subsection \<open>Observing a run\<close>

text \<open>
  The indices passed to \<^verbatim>\<open>ReadDir\<close>, the names passed to \<^verbatim>\<open>FindDir\<close>, the
  (device, name) pairs passed to a driver's \<^verbatim>\<open>Mount\<close> and the devices passed to
  \<^verbatim>\<open>IdentifyFilesystem\<close>, each in the order of the calls.
\<close>

fun ReadDir_indices :: "call list \<Rightarrow> nat list" where
  "ReadDir_indices [] = []"
| "ReadDir_indices (ReadDir_call i # cs) = i # ReadDir_indices cs"
| "ReadDir_indices (c # cs) = ReadDir_indices cs"

fun FindDir_names :: "call list \<Rightarrow> string list" where
  "FindDir_names [] = []"
| "FindDir_names (FindDir_call n # cs) = n # FindDir_names cs"
| "FindDir_names (c # cs) = FindDir_names cs"

fun DriverMount_args :: "call list \<Rightarrow> (FsNode \<times> string) list" where
  "DriverMount_args [] = []"
| "DriverMount_args (DriverMount_call d n # cs) = (d, n) # DriverMount_args cs"
| "DriverMount_args (c # cs) = DriverMount_args cs"

fun IdentifyFilesystem_devices :: "call list \<Rightarrow> FsNode list" where
  "IdentifyFilesystem_devices [] = []"
| "IdentifyFilesystem_devices (IdentifyFilesystem_call d # cs) = d # IdentifyFilesystem_devices cs"
| "IdentifyFilesystem_devices (c # cs) = IdentifyFilesystem_devices cs"

text \<open>
  What the boot scan is to probe: the character device an entry of \<^verbatim>\<open>/dev\<close> resolves
  to (none when the name does not resolve or the node is not a character device), the
  character devices of a list of entries in order, those among them for which the
  identification service finds a driver, and the mount requests for them under the
  name \<open>system\<close>.
\<close>

definition char_device_of :: "env \<Rightarrow> string \<Rightarrow> FsNode list" where
  "char_device_of e ent =
     (case FindDir e ent of None \<Rightarrow> [] | Some d \<Rightarrow> if IsCharDevice d then [d] else [])"

definition char_devices :: "env \<Rightarrow> string list \<Rightarrow> FsNode list" where
  "char_devices e ents = concat (map (char_device_of e) ents)"

definition with_filesystem :: "env \<Rightarrow> FsNode list \<Rightarrow> FsNode list" where
  "with_filesystem e ds = filter (\<lambda>d. IdentifyFilesystem e d \<noteq> None) ds"

definition as_system :: "FsNode list \<Rightarrow> (FsNode \<times> string) list" where
  "as_system ds = map (\<lambda>d. (d, ''system'')) ds"

text \<open>
  The identification service keeps its contract on the entries \<open>ents\<close>: a driver it
  returns for a character device among them identifies that device (the spec has it
  return the first registered driver whose \<open>Identify\<close> succeeds).
\<close>

definition drivers_identify :: "env \<Rightarrow> string list \<Rightarrow> bool" where
  "drivers_identify e ents =
     list_all (\<lambda>d. case IdentifyFilesystem e d of None \<Rightarrow> True | Some drv \<Rightarrow> Identify drv d)
       (char_devices e ents)"

text \<open>A sequence of \<^verbatim>\<open>Unmount\<close> calls, one per name.\<close>

fun unmounts :: "string list \<Rightarrow> kernel \<Rightarrow> kernel" where
  "unmounts [] s = s"
| "unmounts (name # names) s = unmounts names (snd (Unmount name s))"

text \<open>
  A sequence of \<^verbatim>\<open>RegisterVolume\<close> and \<^verbatim>\<open>UnregisterVolume\<close> calls; \<open>run_ops\<close>
  returns the ID each registration wrote into its volume (read back from the object
  right after the call), in call order, and the final state.
\<close>

datatype registry_op = Register nat | Unregister nat

fun is_Register :: "registry_op \<Rightarrow> bool" where
  "is_Register (Register v) = True"
| "is_Register (Unregister v) = False"

fun run_ops :: "env \<Rightarrow> registry_op list \<Rightarrow> kernel \<Rightarrow> 32 word list \<times> kernel" where
  "run_ops e [] s = ([], s)"
| "run_ops e (Register v # ops) s =
     (let s1 = RegisterVolume e v s
      in case run_ops e ops s1 of (ids, s') \<Rightarrow> (volumeID (vol s1 v) # ids, s'))"
| "run_ops e (Unregister v # ops) s = run_ops e ops (snd (UnregisterVolume v s))"

definition registrations :: "registry_op list \<Rightarrow> nat" where
  "registrations ops = length (filter is_Register ops)"

definition ids_distinct :: "kernel \<Rightarrow> bool" where
  "ids_distinct s \<longleftrightarrow>
     (\<forall>v \<in> set (volumes s). \<forall>w \<in> set (volumes s). v \<noteq> w \<longrightarrow> volumeID (vol s v) \<noteq> volumeID (vol s w))"

text \<open>Every registered volume carries an ID below the counter.\<close>

definition ids_below :: "kernel \<Rightarrow> bool" where
  "ids_below s \<longleftrightarrow> (\<forall>v \<in> set (volumes s). unat (volumeID (vol s v)) < unat (nextVolumeID s))"

subsection \<open>Example machines\<close>

text \<open>
  Nodes, drivers and a \<^verbatim>\<open>/dev\<close> directory on which the theorems are instantiated:
  \<open>drv_ok\<close> identifies every device and builds the volume of the device at address
  \<open>a\<close> at address \<open>1000 + a\<close>, with the name it was given; \<open>drv_fail\<close>
  identifies every device and never mounts; \<open>drv_other\<close> identifies none.
  \<open>dev_env\<close> has three character devices of which only the second has a filesystem.
\<close>

definition blank_volume :: FsVolume where
  "blank_volume = \<lparr>mountPointDirent_name = [], volumeID = 0, mountPoint = None\<rparr>"

definition chardev :: "nat \<Rightarrow> FsNode" where
  "chardev a = \<lparr>nodeAddr = a, IsCharDevice = True\<rparr>"

definition plainfile :: "nat \<Rightarrow> FsNode" where
  "plainfile a = \<lparr>nodeAddr = a, IsCharDevice = False\<rparr>"

definition drv_ok :: FsDriver where
  "drv_ok = \<lparr>Identify = (\<lambda>d. True),
             DriverMount = (\<lambda>d n mem. (Some (1000 + nodeAddr d),
                mem(1000 + nodeAddr d :=
                  \<lparr>mountPointDirent_name = n, volumeID = 0, mountPoint = Some (2000 + nodeAddr d)\<rparr>)))\<rparr>"

definition drv_fail :: FsDriver where
  "drv_fail = \<lparr>Identify = (\<lambda>d. True), DriverMount = (\<lambda>d n mem. (None, mem))\<rparr>"

definition drv_other :: FsDriver where
  "drv_other = \<lparr>Identify = (\<lambda>d. False), DriverMount = (\<lambda>d n mem. (None, mem))\<rparr>"

definition dev_env :: env where
  "dev_env = \<lparr>devFS = Some [''sda'', ''sdb'', ''sdc''],
              FindDir = (\<lambda>n. if n = ''sda'' then Some (chardev 1)
                              else if n = ''sdb'' then Some (chardev 2)
                              else if n = ''sdc'' then Some (chardev 3) else None),
              IdentifyFilesystem = (\<lambda>d. if nodeAddr d = 2 then Some drv_ok else None),
              GetRoot = 0\<rparr>"

text \<open>
  \<open>drv_sdb_fail\<close> identifies only the device at address 2 and fails to mount it;
  \<open>dev_env_fail\<close> is \<open>dev_env\<close> with that driver as the only registered one.
\<close>

definition drv_sdb_fail :: FsDriver where
  "drv_sdb_fail = \<lparr>Identify = (\<lambda>d. nodeAddr d = 2), DriverMount = (\<lambda>d n mem. (None, mem))\<rparr>"

definition dev_env_fail :: env where
  "dev_env_fail = dev_env\<lparr>IdentifyFilesystem :=
                     (\<lambda>d. if Identify drv_sdb_fail d then Some drv_sdb_fail else None)\<rparr>"

definition fresh :: kernel where
  "fresh = Initialize (\<lambda>a. blank_volume) (\<lambda>a. None)"

text \<open>A registry of three volumes named \<open>a\<close>, \<open>b\<close>, \<open>b\<close>, in that order.\<close>

definition three_volumes :: kernel where
  "three_volumes =
     \<lparr>systemVolume = None, volumes = [10, 20, 30], nextVolumeID = 4, nextVolumeName = 0,
      vol = (\<lambda>a. if a = 10 then \<lparr>mountPointDirent_name = ''a'', volumeID = 1, mountPoint = None\<rparr>
                  else if a = 20 then \<lparr>mountPointDirent_name = ''b'', volumeID = 2, mountPoint = None\<rparr>
                  else \<lparr>mountPointDirent_name = ''b'', volumeID = 3, mountPoint = None\<rparr>),
      parent = (\<lambda>a. None), calls = []\<rparr>"

definition example_ops :: "registry_op list" where
  "example_ops = [Register 10, Register 20, Unregister 10, Register 30]"

section \<open>What the registry operations change\<close>

lemma RegisterVolume_fields:
  "volumes (RegisterVolume e v s) = volumes s @ [v]"
  "nextVolumeID (RegisterVolume e v s) = nextVolumeID s + 1"
  "nextVolumeName (RegisterVolume e v s) = nextVolumeName s"
  "systemVolume (RegisterVolume e v s) = systemVolume s"
  "calls (RegisterVolume e v s) = calls s"
  "volumeID (vol (RegisterVolume e v s) v) = nextVolumeID s"
  "w \<noteq> v \<Longrightarrow> vol (RegisterVolume e v s) w = vol s w"
  "mountPointDirent_name (vol (RegisterVolume e v s) w) = mountPointDirent_name (vol s w)"
  by (simp_all add: RegisterVolume_def Let_def split: option.split)

lemma UnregisterVolume_loop_subset:
  "UnregisterVolume_loop vs v = Some vs' \<Longrightarrow> set vs' \<subseteq> set vs"
  by (induction vs arbitrary: vs') (auto split: if_splits)

lemma UnregisterVolume_fields:
  "set (volumes (snd (UnregisterVolume v s))) \<subseteq> set (volumes s)"
  "nextVolumeID (snd (UnregisterVolume v s)) = nextVolumeID s"
  "nextVolumeName (snd (UnregisterVolume v s)) = nextVolumeName s"
  "systemVolume (snd (UnregisterVolume v s)) = systemVolume s"
  "calls (snd (UnregisterVolume v s)) = calls s"
  "vol (snd (UnregisterVolume v s)) = vol s"
  by (auto simp: UnregisterVolume_def split: option.split dest: UnregisterVolume_loop_subset)

lemma ReadDir_indices_append: "ReadDir_indices (xs @ ys) = ReadDir_indices xs @ ReadDir_indices ys"
  by (induction xs rule: ReadDir_indices.induct) simp_all

lemma FindDir_names_append: "FindDir_names (xs @ ys) = FindDir_names xs @ FindDir_names ys"
  by (induction xs rule: FindDir_names.induct) simp_all

lemma DriverMount_args_append:
  "DriverMount_args (xs @ ys) = DriverMount_args xs @ DriverMount_args ys"
  by (induction xs rule: DriverMount_args.induct) simp_all

lemma IdentifyFilesystem_devices_append:
  "IdentifyFilesystem_devices (xs @ ys) = IdentifyFilesystem_devices xs @ IdentifyFilesystem_devices ys"
  by (induction xs rule: IdentifyFilesystem_devices.induct) simp_all

lemma char_devices_simps:
  "char_devices e [] = []"
  "char_devices e (x # xs) = char_device_of e x @ char_devices e xs"
  "char_devices e (xs @ ys) = char_devices e xs @ char_devices e ys"
  by (simp_all add: char_devices_def)

lemma with_filesystem_append:
  "with_filesystem e (xs @ ys) = with_filesystem e xs @ with_filesystem e ys"
  by (simp add: with_filesystem_def)

lemma as_system_append: "as_system (xs @ ys) = as_system xs @ as_system ys"
  by (simp add: as_system_def)

section \<open>Lookup by name\<close>

lemma FindVolume_loop_None:
  "FindVolume_loop mem vs name = None \<longleftrightarrow> (\<forall>v \<in> set vs. mountPointDirent_name (mem v) \<noteq> name)"
  by (induction vs) auto

lemma FindVolume_loop_Some_split:
  assumes "FindVolume_loop mem vs name = Some v"
  shows "\<exists>pre post. vs = pre @ v # post \<and> mountPointDirent_name (mem v) = name
           \<and> (\<forall>u \<in> set pre. mountPointDirent_name (mem u) \<noteq> name)"
  using assms
proof (induction vs)
  case Nil
  then show ?case by simp
next
  case (Cons x xs)
  show ?case
  proof (cases "mountPointDirent_name (mem x) = name")
    case True
    with Cons.prems have "x # xs = [] @ v # xs \<and> mountPointDirent_name (mem v) = name
        \<and> (\<forall>u \<in> set []. mountPointDirent_name (mem u) \<noteq> name)" by simp
    then show ?thesis by blast
  next
    case False
    with Cons.prems have "FindVolume_loop mem xs name = Some v" by simp
    from Cons.IH [OF this] obtain pre post where h: "xs = pre @ v # post"
      "mountPointDirent_name (mem v) = name"
      "\<forall>u \<in> set pre. mountPointDirent_name (mem u) \<noteq> name" by blast
    with False have "x # xs = (x # pre) @ v # post \<and> mountPointDirent_name (mem v) = name
        \<and> (\<forall>u \<in> set (x # pre). mountPointDirent_name (mem u) \<noteq> name)" by simp
    then show ?thesis by blast
  qed
qed

lemma FindVolume_loop_first:
  assumes "mountPointDirent_name (mem v) = name"
    and "\<forall>u \<in> set pre. mountPointDirent_name (mem u) \<noteq> name"
  shows "FindVolume_loop mem (pre @ v # post) name = Some v"
  using assms by (induction pre) auto

text \<open>
  \<^bold>\<open>C7.\<close> \<open>FindVolume name\<close> answers null exactly when no registered volume has the
  mount name \<open>name\<close>, and answers \<open>v\<close> exactly when the registry list splits into
  volumes of other names, then \<open>v\<close> with the name \<open>name\<close>, then the rest: the first
  match in the order of the list, which is the order of registration
  (\<open>RegisterVolume\<close> appends at the back). The function reads the state and returns
  only the pointer.
\<close>

theorem FindVolume_first_match:
  "(FindVolume s name = None \<longleftrightarrow>
      (\<forall>v \<in> set (volumes s). mountPointDirent_name (vol s v) \<noteq> name))
   \<and> (FindVolume s name = Some v \<longleftrightarrow>
        (\<exists>pre post. volumes s = pre @ v # post \<and> mountPointDirent_name (vol s v) = name
           \<and> (\<forall>u \<in> set pre. mountPointDirent_name (vol s u) \<noteq> name)))"
proof -
  have "FindVolume s name = None \<longleftrightarrow>
      (\<forall>v \<in> set (volumes s). mountPointDirent_name (vol s v) \<noteq> name)"
    by (simp add: FindVolume_def FindVolume_loop_None)
  moreover have "FindVolume s name = Some v \<longleftrightarrow>
        (\<exists>pre post. volumes s = pre @ v # post \<and> mountPointDirent_name (vol s v) = name
           \<and> (\<forall>u \<in> set pre. mountPointDirent_name (vol s u) \<noteq> name))"
    unfolding FindVolume_def
    using FindVolume_loop_Some_split [of "vol s" "volumes s" name v]
      FindVolume_loop_first [of "vol s" v name]
    by metis
  ultimately show ?thesis by blast
qed

theorem FindVolume_first_match_witness:
  "volumes three_volumes = [10] @ 20 # [30]
   \<and> mountPointDirent_name (vol three_volumes 20) = ''b''
   \<and> mountPointDirent_name (vol three_volumes 30) = ''b''
   \<and> FindVolume three_volumes ''b'' = Some 20
   \<and> FindVolume three_volumes ''c'' = None"
proof -
  have a: "volumes three_volumes = [10] @ 20 # [30] \<and> mountPointDirent_name (vol three_volumes 20) = ''b''
      \<and> (\<forall>u \<in> set [10]. mountPointDirent_name (vol three_volumes u) \<noteq> ''b'')"
    by (simp add: three_volumes_def)
  have b: "\<forall>v \<in> set (volumes three_volumes). mountPointDirent_name (vol three_volumes v) \<noteq> ''c''"
    by (simp add: three_volumes_def)
  have c: "mountPointDirent_name (vol three_volumes 30) = ''b''"
    by (simp add: three_volumes_def)
  from a have "\<exists>pre post. volumes three_volumes = pre @ 20 # post
      \<and> mountPointDirent_name (vol three_volumes 20) = ''b''
      \<and> (\<forall>u \<in> set pre. mountPointDirent_name (vol three_volumes u) \<noteq> ''b'')" by blast
  with FindVolume_first_match [of three_volumes "''b''" 20]
  have "FindVolume three_volumes ''b'' = Some 20" by blast
  moreover from b FindVolume_first_match [of three_volumes "''c''" 0]
  have "FindVolume three_volumes ''c'' = None" by blast
  ultimately show ?thesis using a c by blast
qed

section \<open>Unmount\<close>

lemma UnregisterVolume_loop_first:
  "v \<notin> set pre \<Longrightarrow> UnregisterVolume_loop (pre @ v # post) v = Some (pre @ post)"
  by (induction pre) auto

lemma Unmount_loop_miss:
  "\<forall>v \<in> set vs. mountPointDirent_name (vol s v) \<noteq> name \<Longrightarrow>
     Unmount_loop vs name s = (VolumeErrorVolumeNotFound, s)"
  by (induction vs) auto

lemma Unmount_loop_hit:
  assumes "mountPointDirent_name (vol s v) = name"
    and "\<forall>u \<in> set pre. mountPointDirent_name (vol s u) \<noteq> name"
  shows "Unmount_loop (pre @ v # post) name s = (Ok, snd (UnregisterVolume v s))"
  using assms by (induction pre) auto

lemma Unmount_hit:
  assumes vs: "volumes s = pre @ v # post"
    and v: "mountPointDirent_name (vol s v) = name"
    and pre: "\<forall>u \<in> set pre. mountPointDirent_name (vol s u) \<noteq> name"
  shows "Unmount name s = (Ok, s\<lparr>volumes := pre @ post\<rparr>)"
proof -
  from v pre have "v \<notin> set pre" by blast
  then have "UnregisterVolume_loop (volumes s) v = Some (pre @ post)"
    unfolding vs by (rule UnregisterVolume_loop_first)
  then have "snd (UnregisterVolume v s) = s\<lparr>volumes := pre @ post\<rparr>"
    by (simp add: UnregisterVolume_def)
  with Unmount_loop_hit [OF v pre, of post] show ?thesis
    by (simp add: Unmount_def vs)
qed

text \<open>
  \<^bold>\<open>C6.\<close> \<open>Unmount name\<close> returns \<open>VolumeErrorVolumeNotFound\<close> exactly when no
  registered volume has the mount name \<open>name\<close>, and then the state is unchanged.
  When some registered volume has that name, the list splits into volumes of other
  names, the volume \<open>FindVolume name\<close> returns, and the rest; \<open>Unmount\<close> returns 0
  and the new list is the same without that one entry, the others in their order.
\<close>

theorem Unmount_first_match:
  "(fst (Unmount name s) = VolumeErrorVolumeNotFound \<longleftrightarrow>
      (\<forall>v \<in> set (volumes s). mountPointDirent_name (vol s v) \<noteq> name))
   \<and> ((\<forall>v \<in> set (volumes s). mountPointDirent_name (vol s v) \<noteq> name) \<longrightarrow>
        Unmount name s = (VolumeErrorVolumeNotFound, s))
   \<and> ((\<exists>v \<in> set (volumes s). mountPointDirent_name (vol s v) = name) \<longrightarrow>
        (\<exists>v pre post. FindVolume s name = Some v \<and> volumes s = pre @ v # post
           \<and> (\<forall>u \<in> set pre. mountPointDirent_name (vol s u) \<noteq> name)
           \<and> Unmount name s = (Ok, s\<lparr>volumes := pre @ post\<rparr>)))"
proof -
  have miss: "Unmount name s = (VolumeErrorVolumeNotFound, s)"
    if "\<forall>v \<in> set (volumes s). mountPointDirent_name (vol s v) \<noteq> name"
    using that by (simp add: Unmount_def Unmount_loop_miss)
  have hit: "\<exists>v pre post. FindVolume s name = Some v \<and> volumes s = pre @ v # post
           \<and> (\<forall>u \<in> set pre. mountPointDirent_name (vol s u) \<noteq> name)
           \<and> Unmount name s = (Ok, s\<lparr>volumes := pre @ post\<rparr>)"
    if "\<exists>v \<in> set (volumes s). mountPointDirent_name (vol s v) = name"
  proof -
    from that have "FindVolume_loop (vol s) (volumes s) name \<noteq> None"
      by (simp add: FindVolume_loop_None)
    then obtain v where f: "FindVolume_loop (vol s) (volumes s) name = Some v" by blast
    from FindVolume_loop_Some_split [OF f] obtain pre post where
      h: "volumes s = pre @ v # post" "mountPointDirent_name (vol s v) = name"
         "\<forall>u \<in> set pre. mountPointDirent_name (vol s u) \<noteq> name" by blast
    from Unmount_hit [OF h] f h show ?thesis
      unfolding FindVolume_def by blast
  qed
  have "fst (Unmount name s) = VolumeErrorVolumeNotFound \<longleftrightarrow>
      (\<forall>v \<in> set (volumes s). mountPointDirent_name (vol s v) \<noteq> name)"
  proof
    assume a: "fst (Unmount name s) = VolumeErrorVolumeNotFound"
    show "\<forall>v \<in> set (volumes s). mountPointDirent_name (vol s v) \<noteq> name"
    proof (rule ccontr)
      assume "\<not> (\<forall>v \<in> set (volumes s). mountPointDirent_name (vol s v) \<noteq> name)"
      then have "\<exists>v \<in> set (volumes s). mountPointDirent_name (vol s v) = name" by blast
      from hit [OF this] have "fst (Unmount name s) = Ok" by auto
      with a show False by simp
    qed
  next
    assume "\<forall>v \<in> set (volumes s). mountPointDirent_name (vol s v) \<noteq> name"
    from miss [OF this] show "fst (Unmount name s) = VolumeErrorVolumeNotFound" by simp
  qed
  with miss hit show ?thesis by blast
qed

theorem Unmount_first_match_witness:
  "volumes three_volumes = [10, 20, 30]
   \<and> mountPointDirent_name (vol three_volumes 10) = ''a''
   \<and> mountPointDirent_name (vol three_volumes 20) = ''b''
   \<and> mountPointDirent_name (vol three_volumes 30) = ''b''
   \<and> FindVolume three_volumes ''b'' = Some 20
   \<and> fst (Unmount ''b'' three_volumes) = Ok
   \<and> volumes (snd (Unmount ''b'' three_volumes)) = [10, 30]
   \<and> FindVolume three_volumes ''c'' = None
   \<and> Unmount ''c'' three_volumes = (VolumeErrorVolumeNotFound, three_volumes)"
proof -
  have b: "\<exists>v \<in> set (volumes three_volumes). mountPointDirent_name (vol three_volumes v) = ''b''"
    by (simp add: three_volumes_def)
  have c: "\<forall>v \<in> set (volumes three_volumes). mountPointDirent_name (vol three_volumes v) \<noteq> ''c''"
    by (simp add: three_volumes_def)
  from Unmount_first_match [of "''b''" three_volumes] b
  obtain v pre post where h: "FindVolume three_volumes ''b'' = Some v"
    "volumes three_volumes = pre @ v # post"
    "Unmount ''b'' three_volumes = (Ok, three_volumes\<lparr>volumes := pre @ post\<rparr>)" by blast
  have f: "FindVolume three_volumes ''b'' = Some 20"
    by (simp add: FindVolume_def three_volumes_def)
  with h(1) have v: "v = 20" by simp
  have "[10, 20, 30] = pre @ 20 # post" using h(2) v by (simp add: three_volumes_def)
  then have "pre @ post = [10, 30::nat]"
    by (cases pre; cases "tl pre"; cases "tl (tl pre)") auto
  with h(3) have u: "fst (Unmount ''b'' three_volumes) = Ok"
    "volumes (snd (Unmount ''b'' three_volumes)) = [10, 30]" by simp_all
  from Unmount_first_match [of "''c''" three_volumes] c
  have "Unmount ''c'' three_volumes = (VolumeErrorVolumeNotFound, three_volumes)" by blast
  moreover have "volumes three_volumes = [10, 20, 30]"
    "mountPointDirent_name (vol three_volumes 10) = ''a''"
    "mountPointDirent_name (vol three_volumes 20) = ''b''"
    "mountPointDirent_name (vol three_volumes 30) = ''b''"
    "FindVolume three_volumes ''c'' = None"
    by (simp_all add: three_volumes_def FindVolume_def)
  ultimately show ?thesis using f u by blast
qed

section \<open>Volume IDs\<close>

lemma sint_of_nat_small:
  assumes "n < 2 ^ 31"
  shows "sint (of_nat n :: 32 word) = int n"
proof -
  have "sint (word_of_int (int n) :: 32 word) = signed_take_bit 31 (int n)"
    by (simp only: sint_sbintrunc') simp
  also have "\<dots> = int n"
    using assms by (intro signed_take_bit_int_eq_self) auto
  finally show ?thesis by simp
qed

lemma run_ops_ids:
  "run_ops e ops s = (ids, s') \<Longrightarrow>
     ids = map (\<lambda>j. nextVolumeID s + of_nat j) [0..<registrations ops]
     \<and> nextVolumeID s' = nextVolumeID s + of_nat (registrations ops)"
proof (induction e ops s arbitrary: ids s' rule: run_ops.induct)
  case (1 e s)
  then show ?case by (simp add: registrations_def)
next
  case (2 e v ops s)
  obtain ids1 where r: "run_ops e ops (RegisterVolume e v s) = (ids1, s')"
    and ids: "ids = nextVolumeID s # ids1"
    using "2.prems" by (auto simp: Let_def RegisterVolume_fields split: prod.splits)
  from "2.IH" [OF refl r] have
    ih: "ids1 = map (\<lambda>j. nextVolumeID s + 1 + of_nat j) [0..<registrations ops]"
        "nextVolumeID s' = nextVolumeID s + 1 + of_nat (registrations ops)"
    by (simp_all add: RegisterVolume_fields)
  have n: "registrations (Register v # ops) = Suc (registrations ops)"
    by (simp add: registrations_def)
  show ?case unfolding n ids ih map_upt_Suc by (simp add: add.assoc)
next
  case (3 e v ops s)
  from "3.prems" have r: "run_ops e ops (snd (UnregisterVolume v s)) = (ids, s')" by simp
  have n: "registrations (Unregister v # ops) = registrations ops"
    by (simp add: registrations_def)
  from "3.IH" [OF r] show ?case unfolding n by (simp add: UnregisterVolume_fields)
qed

lemma unat_plus_one:
  fixes x :: "32 word"
  assumes "unat x + 1 < 2 ^ 32"
  shows "unat (x + 1) = unat x + 1"
  using assms by (simp add: unat_word_ariths)

lemma RegisterVolume_inv:
  assumes "ids_below s" "ids_distinct s" "unat (nextVolumeID s) + 1 < 2 ^ 32"
  shows "ids_below (RegisterVolume e v s) \<and> ids_distinct (RegisterVolume e v s)"
proof -
  let ?s = "RegisterVolume e v s"
  have next': "unat (nextVolumeID ?s) = unat (nextVolumeID s) + 1"
    using assms(3) by (simp add: RegisterVolume_fields unat_plus_one)
  have old: "unat (volumeID (vol ?s w)) < unat (nextVolumeID s)"
    if "w \<in> set (volumes s)" "w \<noteq> v" for w
    using that assms(1) by (simp add: RegisterVolume_fields ids_below_def)
  have same: "vol ?s w = vol s w" if "w \<noteq> v" for w
    using that by (simp add: RegisterVolume_fields)
  have new: "unat (volumeID (vol ?s v)) = unat (nextVolumeID s)"
    by (simp add: RegisterVolume_fields)
  have "ids_below ?s"
    unfolding ids_below_def next'
  proof
    fix w assume "w \<in> set (volumes ?s)"
    then have w: "w \<in> set (volumes s) \<or> w = v" by (auto simp: RegisterVolume_fields(1))
    show "unat (volumeID (vol ?s w)) < unat (nextVolumeID s) + 1"
    proof (cases "w = v")
      case True
      with new show ?thesis by simp
    next
      case False
      with w have "unat (volumeID (vol ?s w)) < unat (nextVolumeID s)" by (simp add: old)
      then show ?thesis by linarith
    qed
  qed
  moreover have "ids_distinct ?s"
    unfolding ids_distinct_def
  proof (intro ballI impI)
    fix a b assume a: "a \<in> set (volumes ?s)" and b: "b \<in> set (volumes ?s)" and ne: "a \<noteq> b"
    from a b have ab: "a \<in> set (volumes s) \<or> a = v" "b \<in> set (volumes s) \<or> b = v"
      by (auto simp: RegisterVolume_fields(1))
    show "volumeID (vol ?s a) \<noteq> volumeID (vol ?s b)"
    proof (cases "a = v")
      case True
      with ne ab have "b \<in> set (volumes s)" "b \<noteq> v" by auto
      from old [OF this] new True show ?thesis by auto
    next
      case False
      with ab have a': "a \<in> set (volumes s)" by auto
      show ?thesis
      proof (cases "b = v")
        case True
        from old [OF a' False] new True show ?thesis by auto
      next
        case bf: False
        with ab have b': "b \<in> set (volumes s)" by auto
        from assms(2) a' b' ne have "volumeID (vol s a) \<noteq> volumeID (vol s b)"
          by (simp add: ids_distinct_def)
        then show ?thesis by (simp add: same [OF False] same [OF bf])
      qed
    qed
  qed
  ultimately show ?thesis by blast
qed

lemma UnregisterVolume_inv:
  assumes "ids_below s" "ids_distinct s"
  shows "ids_below (snd (UnregisterVolume v s)) \<and> ids_distinct (snd (UnregisterVolume v s))"
  using assms UnregisterVolume_fields(1) [of v s]
  unfolding ids_below_def ids_distinct_def
  by (simp add: UnregisterVolume_fields(2,6)) blast

lemma run_ops_inv:
  "run_ops e ops s = (ids, s') \<Longrightarrow> ids_below s \<Longrightarrow> ids_distinct s \<Longrightarrow>
     unat (nextVolumeID s) + registrations ops < 2 ^ 32 \<Longrightarrow>
     ids_below s' \<and> ids_distinct s'"
proof (induction e ops s arbitrary: ids s' rule: run_ops.induct)
  case (1 e s)
  then show ?case by simp
next
  case (2 e v ops s)
  obtain ids1 where r: "run_ops e ops (RegisterVolume e v s) = (ids1, s')"
    using "2.prems"(1) by (auto simp: Let_def split: prod.splits)
  have n: "registrations (Register v # ops) = Suc (registrations ops)"
    by (simp add: registrations_def)
  with "2.prems"(4) have b: "unat (nextVolumeID s) + 1 < 2 ^ 32" by simp
  from RegisterVolume_inv [OF "2.prems"(2,3) b, of e v]
  have i: "ids_below (RegisterVolume e v s)" "ids_distinct (RegisterVolume e v s)" by simp_all
  have "unat (nextVolumeID (RegisterVolume e v s)) + registrations ops < 2 ^ 32"
    using "2.prems"(4) b unfolding n by (simp add: RegisterVolume_fields unat_plus_one)
  from "2.IH" [OF refl r i this] show ?case .
next
  case (3 e v ops s)
  from "3.prems"(1) have r: "run_ops e ops (snd (UnregisterVolume v s)) = (ids, s')" by simp
  have n: "registrations (Unregister v # ops) = registrations ops"
    by (simp add: registrations_def)
  from UnregisterVolume_inv [OF "3.prems"(2,3), of v]
  have i: "ids_below (snd (UnregisterVolume v s))" "ids_distinct (snd (UnregisterVolume v s))"
    by simp_all
  have "unat (nextVolumeID (snd (UnregisterVolume v s))) + registrations ops < 2 ^ 32"
    using "3.prems"(4) unfolding n by (simp add: UnregisterVolume_fields)
  from "3.IH" [OF r i this] show ?case .
qed

text \<open>
  \<^bold>\<open>C3.\<close> Starting from the initialized registry, any sequence of
  \<open>RegisterVolume\<close> and \<open>UnregisterVolume\<close> calls with \<open>N\<close> registrations assigns,
  as 32-bit values, the IDs 1, 2, ..., \<open>N\<close> in registration order, whatever was
  unregistered in between. For \<open>N\<close> below \<open>2^31\<close>, the range in which the
  \<^verbatim>\<open>int\<close> counter does not overflow, these are the integers 1, ..., \<open>N\<close>; they are
  pairwise different, so no registration receives an ID assigned before; and in the
  final state two different registered volumes never carry the same ID.
\<close>

theorem volume_ids_monotonic:
  assumes run: "run_ops e ops (Initialize mem par) = (ids, s')"
    and N: "registrations ops = N"
  shows "ids = map of_nat [1..<N + 1]
         \<and> (N < 2 ^ 31 \<longrightarrow>
              map sint ids = map int [1..<N + 1] \<and> distinct ids \<and> ids_distinct s'
              \<and> unat (nextVolumeID s') = N + 1)"
proof -
  let ?s = "Initialize mem par"
  have init: "nextVolumeID ?s = 1" "volumes ?s = []" by (simp_all add: Initialize_def)
  from run_ops_ids [OF run] have ids: "ids = map (\<lambda>j. 1 + of_nat j) [0..<N]"
    and nxt: "nextVolumeID s' = 1 + of_nat N"
    by (simp_all add: init N)
  have "map (\<lambda>j. 1 + of_nat j) [0..<N] = map (of_nat :: nat \<Rightarrow> 32 word) (map Suc [0..<N])"
    by simp
  also have "\<dots> = map of_nat [1..<N + 1]" by (simp only: map_Suc_upt) simp
  finally have w: "ids = map of_nat [1..<N + 1]" unfolding ids .
  have rest: "map sint ids = map int [1..<N + 1] \<and> distinct ids \<and> ids_distinct s'
              \<and> unat (nextVolumeID s') = N + 1" if bound: "N < 2 ^ 31"
  proof -
    have s: "sint (1 + of_nat j :: 32 word) = int (j + 1)" if "j < N" for j
    proof -
      from that bound have "Suc j < 2 ^ 31" by simp
      from sint_of_nat_small [OF this] show ?thesis by (simp add: add.commute)
    qed
    have "map sint ids = map (\<lambda>j. int (j + 1)) [0..<N]"
      unfolding ids using s by simp
    also have "\<dots> = map int (map (\<lambda>j. j + 1) [0..<N])" by simp
    also have "\<dots> = map int [1..<N + 1]" by (simp only: map_add_upt)
    finally have m: "map sint ids = map int [1..<N + 1]" .
    have "distinct (map int [1..<N + 1])" by (simp add: distinct_map)
    with m have "distinct (map sint ids)" by simp
    then have d: "distinct ids" by (simp add: distinct_map)
    have "unat (nextVolumeID ?s) + registrations ops < 2 ^ 32"
      using bound by (simp add: init N)
    from run_ops_inv [OF run _ _ this] have i: "ids_distinct s'"
      by (simp add: ids_below_def ids_distinct_def init)
    have "unat (1 + of_nat N :: 32 word) = N + 1"
    proof -
      from bound have "Suc N < 2 ^ 32" by simp
      then have "Suc N mod 2 ^ LENGTH(32) = Suc N" by simp
      with unat_of_nat [of "Suc N", where 'a = 32]
      have u: "unat (of_nat (Suc N) :: 32 word) = Suc N" by (simp only:)
      have "(of_nat (Suc N) :: 32 word) = 1 + of_nat N" by simp
      with u show ?thesis by (simp only: Suc_eq_plus1)
    qed
    with m d i nxt show ?thesis by simp
  qed
  from w rest show ?thesis by blast
qed

theorem volume_ids_monotonic_witness:
  "registrations example_ops = 3 \<and> (3::nat) < 2 ^ 31
   \<and> fst (run_ops dev_env example_ops fresh) = [1, 2, 3]
   \<and> map sint (fst (run_ops dev_env example_ops fresh)) = [1, 2, 3]
   \<and> distinct (fst (run_ops dev_env example_ops fresh))
   \<and> ids_distinct (snd (run_ops dev_env example_ops fresh))
   \<and> volumes (snd (run_ops dev_env example_ops fresh)) = [20, 30]"
proof -
  have n: "registrations example_ops = 3" by (simp add: registrations_def example_ops_def)
  have b: "(3::nat) < 2 ^ 31" by simp
  have r: "run_ops dev_env example_ops (Initialize (\<lambda>a. blank_volume) (\<lambda>a. None))
             = (fst (run_ops dev_env example_ops fresh), snd (run_ops dev_env example_ops fresh))"
    by (simp add: fresh_def)
  have u: "map int [1..<3 + 1] = [1, 2, 3]" by (simp add: upt_rec)
  have u': "map (of_nat :: nat \<Rightarrow> 32 word) [1..<3 + 1] = [1, 2, 3]" by (simp add: upt_rec)
  have v: "volumes (snd (run_ops dev_env example_ops fresh)) = [20, 30]"
    by (simp add: example_ops_def fresh_def Initialize_def RegisterVolume_def
          UnregisterVolume_def blank_volume_def Let_def split: prod.split)
  from volume_ids_monotonic [OF r n] u u' n b v show ?thesis by simp
qed

section \<open>The explicit-driver and auto-detect mounts\<close>

text \<open>
  \<^bold>\<open>C9.\<close> On a node that is not a character device both \<^verbatim>\<open>Mount\<close> overloads return
  \<open>VolumeErrorNotDevice\<close>, and the volume list, the volume objects, both counters and
  the system volume are as before the call.
\<close>

theorem Mount_not_device:
  assumes "\<not> IsCharDevice device"
  shows "(\<exists>s'. Mount_auto e device name s = Inr (VolumeErrorNotDevice, s')
            \<and> volumes s' = volumes s \<and> vol s' = vol s \<and> nextVolumeID s' = nextVolumeID s
            \<and> nextVolumeName s' = nextVolumeName s \<and> systemVolume s' = systemVolume s)
       \<and> (\<exists>s'. Mount_driver e device driver name s = Inr (VolumeErrorNotDevice, s')
            \<and> volumes s' = volumes s \<and> vol s' = vol s \<and> nextVolumeID s' = nextVolumeID s
            \<and> nextVolumeName s' = nextVolumeName s \<and> systemVolume s' = systemVolume s)"
  using assms by (simp add: Mount_auto_def Mount_driver_def log_call_def)

theorem Mount_not_device_witness:
  "\<not> IsCharDevice (plainfile 7)
   \<and> map_sum id fst (Mount_auto dev_env (plainfile 7) (Some ''data'') fresh) = Inr VolumeErrorNotDevice
   \<and> map_sum id fst (Mount_driver dev_env (plainfile 7) drv_ok None fresh) = Inr VolumeErrorNotDevice"
proof -
  have h: "\<not> IsCharDevice (plainfile 7)" by (simp add: plainfile_def)
  from Mount_not_device [OF h, of dev_env "Some ''data''" fresh drv_ok]
    Mount_not_device [OF h, of dev_env None fresh drv_ok]
  show ?thesis using h by auto
qed

text \<open>
  \<^bold>\<open>C4.\<close> On a character device, the assertion \<^verbatim>\<open>assert(driver->Identify(device))\<close>
  does not fire when \<open>Identify\<close> succeeds, and when \<open>Identify\<close> answers false the call
  ends in that assertion: the process terminates and no error code is returned.
\<close>

theorem Mount_driver_Identify_assert:
  assumes "IsCharDevice device"
  shows "(Identify driver device \<longrightarrow> Mount_driver e device driver name s \<noteq> Inl Assert_Identify)
       \<and> (\<not> Identify driver device \<longrightarrow> Mount_driver e device driver name s = Inl Assert_Identify)"
  using assms by (simp add: Mount_driver_def Let_def split: option.split)

theorem Mount_driver_Identify_assert_witness:
  "IsCharDevice (chardev 1) \<and> Identify drv_ok (chardev 1) \<and> \<not> Identify drv_other (chardev 1)
   \<and> Mount_driver dev_env (chardev 1) drv_ok None fresh \<noteq> Inl Assert_Identify
   \<and> Mount_driver dev_env (chardev 1) drv_other None fresh = Inl Assert_Identify"
proof -
  have h: "IsCharDevice (chardev 1)" by (simp add: chardev_def)
  have y: "Identify drv_ok (chardev 1)" by (simp add: drv_ok_def)
  have n: "\<not> Identify drv_other (chardev 1)" by (simp add: drv_other_def)
  from Mount_driver_Identify_assert [OF h, of drv_ok dev_env None fresh]
    Mount_driver_Identify_assert [OF h, of drv_other dev_env None fresh] h y n
  show ?thesis by blast
qed

text \<open>
  \<^bold>\<open>C10.\<close> On a character device, a supplied name of length at least \<open>NAME_MAX\<close>
  makes the call abort (in \<^verbatim>\<open>assert(strlen(name) < NAME_MAX)\<close> once \<open>Identify\<close> has
  succeeded, in the \<open>Identify\<close> assertion before it otherwise) and never return an
  error code; with a name shorter than \<open>NAME_MAX\<close>, or with no name, the length
  assertion does not fire.
\<close>

theorem Mount_driver_name_length_assert:
  assumes "IsCharDevice device"
  shows "(NAME_MAX \<le> length n \<longrightarrow>
            (\<exists>a. Mount_driver e device driver (Some n) s = Inl a)
            \<and> (Identify driver device \<longrightarrow>
                 Mount_driver e device driver (Some n) s = Inl Assert_strlen_NAME_MAX))
       \<and> (length n < NAME_MAX \<longrightarrow>
            Mount_driver e device driver (Some n) s \<noteq> Inl Assert_strlen_NAME_MAX)
       \<and> Mount_driver e device driver None s \<noteq> Inl Assert_strlen_NAME_MAX"
  using assms by (simp add: Mount_driver_def Let_def)

theorem Mount_driver_name_length_assert_witness:
  "IsCharDevice (chardev 1) \<and> NAME_MAX \<le> length (replicate 255 CHR ''a'')
   \<and> length ''system'' < NAME_MAX \<and> Identify drv_ok (chardev 1)
   \<and> Mount_driver dev_env (chardev 1) drv_ok (Some (replicate 255 CHR ''a'')) fresh
       = Inl Assert_strlen_NAME_MAX
   \<and> Mount_driver dev_env (chardev 1) drv_ok (Some ''system'') fresh \<noteq> Inl Assert_strlen_NAME_MAX"
proof -
  have h: "IsCharDevice (chardev 1)" by (simp add: chardev_def)
  have y: "Identify drv_ok (chardev 1)" by (simp add: drv_ok_def)
  have l: "NAME_MAX \<le> length (replicate 255 CHR ''a'')" by (simp add: NAME_MAX_def)
  have k: "length ''system'' < NAME_MAX" by (simp add: NAME_MAX_def)
  from Mount_driver_name_length_assert [OF h, of "replicate 255 CHR ''a''" dev_env drv_ok fresh]
    Mount_driver_name_length_assert [OF h, of "''system''" dev_env drv_ok fresh] h y l k
  show ?thesis by blast
qed

text \<open>
  \<^bold>\<open>C2\<close>, as the code has it. On a character device that the driver identifies, with
  a supplied name shorter than \<open>NAME_MAX\<close> or none, if \<open>driver.Mount\<close> returns null
  for the resolved name then the call returns \<open>VolumeErrorMisc\<close>; the volume list,
  \<open>nextVolumeID\<close> and \<open>systemVolume\<close> are as before; \<open>nextVolumeName\<close> is as
  before when a name was supplied and one more when the name was synthesized.
\<close>

theorem Mount_driver_failure_registry:
  assumes "IsCharDevice device" and "Identify driver device"
    and "\<forall>n. name = Some n \<longrightarrow> length n < NAME_MAX"
    and "fst (DriverMount driver device (resolved_name name s) (vol s)) = None"
  shows "\<exists>s'. Mount_driver e device driver name s = Inr (VolumeErrorMisc, s')
           \<and> volumes s' = volumes s \<and> nextVolumeID s' = nextVolumeID s
           \<and> systemVolume s' = systemVolume s
           \<and> nextVolumeName s' =
               (case name of Some n \<Rightarrow> nextVolumeName s | None \<Rightarrow> nextVolumeName s + 1)"
  using assms
  by (cases name)
     (auto simp: Mount_driver_def Mount_finish_def resolved_name_def log_call_def Let_def
           split: prod.splits option.splits)

theorem Mount_driver_failure_registry_witness:
  "IsCharDevice (chardev 1) \<and> Identify drv_fail (chardev 1) \<and> length ''data'' < NAME_MAX
   \<and> fst (DriverMount drv_fail (chardev 1) ''data'' (vol fresh)) = None
   \<and> map_sum id (map_prod id nextVolumeName)
        (Mount_driver dev_env (chardev 1) drv_fail (Some ''data'') fresh) = Inr (VolumeErrorMisc, 0)"
proof -
  have h: "IsCharDevice (chardev 1)" by (simp add: chardev_def)
  have y: "Identify drv_fail (chardev 1)" by (simp add: drv_fail_def)
  have k: "\<forall>n. Some ''data'' = Some n \<longrightarrow> length n < NAME_MAX" by (simp add: NAME_MAX_def)
  have f: "fst (DriverMount drv_fail (chardev 1) (resolved_name (Some ''data'') fresh) (vol fresh)) = None"
    by (simp add: drv_fail_def)
  have z: "nextVolumeName fresh = 0" by (simp add: fresh_def Initialize_def)
  from Mount_driver_failure_registry [OF h y k f, of dev_env] h y k z
  show ?thesis by (auto simp: drv_fail_def)
qed

text \<open>
  The claim as the spec words it fails when the name is omitted: the driver returns
  null for \<open>volume0\<close>, the call returns \<open>VolumeErrorMisc\<close>, and \<open>nextVolumeName\<close>
  has gone from 0 to 1.
\<close>

theorem Mount_driver_failure_counter_counterexample:
  "map_sum id (map_prod id nextVolumeName) (Mount_driver dev_env (chardev 1) drv_fail None fresh)
     = Inr (VolumeErrorMisc, 1)
   \<and> nextVolumeName fresh = 0 \<and> IsCharDevice (chardev 1)
   \<and> fst (DriverMount drv_fail (chardev 1) ''volume0'' (vol fresh)) = None"
  by (simp add: Mount_driver_def Mount_finish_def log_call_def Let_def fresh_def Initialize_def
        chardev_def drv_fail_def itoa_def)

section \<open>The boot scan\<close>

text \<open>What one call of the tail of Mount does to the observable state.\<close>

lemma Mount_finish_effect:
  assumes "Mount_finish e d drv n s = (c, s')"
  shows "\<exists>new. calls s' = calls s @ new \<and> ReadDir_indices new = [] \<and> FindDir_names new = []
           \<and> IdentifyFilesystem_devices new = []
           \<and> DriverMount_args new = [(d, n)]
           \<and> nextVolumeName s' = nextVolumeName s \<and> systemVolume s' = systemVolume s
           \<and> (c = Ok \<longrightarrow> (\<exists>v. fst (DriverMount drv d n (vol s)) = Some v \<and> volumes s' = volumes s @ [v]))
           \<and> (c \<noteq> Ok \<longrightarrow> c = VolumeErrorMisc \<and> volumes s' = volumes s
                \<and> nextVolumeID s' = nextVolumeID s)"
proof (cases "DriverMount drv d n (vol s)")
  case (Pair r mem)
  show ?thesis
  proof (cases r)
    case None
    with Pair assms have
      "calls s' = calls s @ [DriverMount_call d n,
          LogError ''fs::VolumeManager::Mount: Unknown driver error mounting volume!'']"
      "c = VolumeErrorMisc" "volumes s' = volumes s" "nextVolumeID s' = nextVolumeID s"
      "nextVolumeName s' = nextVolumeName s" "systemVolume s' = systemVolume s"
      by (auto simp: Mount_finish_def log_call_def)
    then show ?thesis by simp
  next
    case (Some v)
    with Pair assms have
      "calls s' = calls s @ [DriverMount_call d n]"
      "c = Ok" "volumes s' = volumes s @ [v]"
      "nextVolumeName s' = nextVolumeName s" "systemVolume s' = systemVolume s"
      by (auto simp: Mount_finish_def log_call_def RegisterVolume_fields)
    with Pair Some show ?thesis by simp
  qed
qed

lemma Mount_driver_named_effect:
  assumes "Mount_driver e d drv (Some n) s = Inr (c, s')" and "IsCharDevice d"
  shows "\<exists>new. calls s' = calls s @ new \<and> ReadDir_indices new = [] \<and> FindDir_names new = []
           \<and> IdentifyFilesystem_devices new = []
           \<and> DriverMount_args new = [(d, n)]
           \<and> nextVolumeName s' = nextVolumeName s \<and> systemVolume s' = systemVolume s
           \<and> (c = Ok \<longrightarrow> (\<exists>v. volumes s' = volumes s @ [v]))
           \<and> (c \<noteq> Ok \<longrightarrow> volumes s' = volumes s)"
proof -
  let ?s1 = "log_call (Identify_call d) s"
  from assms have f: "Mount_finish e d drv n ?s1 = (c, s')"
    by (auto simp: Mount_driver_def Let_def split: if_splits)
  from Mount_finish_effect [OF f] obtain new where
    h: "calls s' = calls ?s1 @ new" "ReadDir_indices new = []"
       "FindDir_names new = []" "IdentifyFilesystem_devices new = []"
       "DriverMount_args new = [(d, n)]"
       "nextVolumeName s' = nextVolumeName ?s1" "systemVolume s' = systemVolume ?s1"
       "c = Ok \<longrightarrow> (\<exists>v. volumes s' = volumes ?s1 @ [v])"
       "c \<noteq> Ok \<longrightarrow> volumes s' = volumes ?s1"
    by blast
  let ?new = "Identify_call d # new"
  have c1: "calls s' = calls s @ ?new" using h(1) by (simp add: log_call_def)
  have c2: "ReadDir_indices ?new = []" "FindDir_names ?new = []"
    "IdentifyFilesystem_devices ?new = []" "DriverMount_args ?new = [(d, n)]"
    using h(2-5) by simp_all
  have c3: "nextVolumeName s' = nextVolumeName s" "systemVolume s' = systemVolume s"
    using h(6,7) by (simp_all add: log_call_def)
  have c4: "c = Ok \<longrightarrow> (\<exists>v. volumes s' = volumes s @ [v])"
    using h(8) by (simp add: log_call_def)
  have c5: "c \<noteq> Ok \<longrightarrow> volumes s' = volumes s"
    using h(9) by (simp add: log_call_def)
  from c1 c2 c3 c4 c5 show ?thesis by (intro exI [of _ ?new]) blast
qed

text \<open>One pass through the body of the scan loop.\<close>

lemma MountSystemVolume_body_effect:
  assumes "MountSystemVolume_body e ent s = Inr (b, s')"
  shows "\<exists>new. calls s' = calls s @ new \<and> ReadDir_indices new = [] \<and> FindDir_names new = [ent]
           \<and> IdentifyFilesystem_devices new = char_device_of e ent
           \<and> DriverMount_args new = as_system (with_filesystem e (char_device_of e ent))
           \<and> nextVolumeName s' = nextVolumeName s \<and> systemVolume s' = systemVolume s
           \<and> (b \<longrightarrow> with_filesystem e (char_device_of e ent) \<noteq> []
                  \<and> (\<exists>v. volumes s' = volumes s @ [v]))
           \<and> (\<not> b \<longrightarrow> volumes s' = volumes s)"
proof -
  let ?s1 = "log_call (FindDir_call ent) s"
  have plain: ?thesis if "b = False" "s' = ?s1" "char_device_of e ent = []"
    using that
    by (intro exI [of _ "[FindDir_call ent]"]) (simp add: log_call_def with_filesystem_def as_system_def)
  show ?thesis
  proof (cases "FindDir e ent")
    case None
    with assms have "b = False" "s' = ?s1" "char_device_of e ent = []"
      by (simp_all add: MountSystemVolume_body_def Let_def char_device_of_def)
    then show ?thesis by (rule plain)
  next
    case (Some d)
    show ?thesis
    proof (cases "IsCharDevice d")
      case False
      with Some assms have "b = False" "s' = ?s1" "char_device_of e ent = []"
        by (simp_all add: MountSystemVolume_body_def Let_def char_device_of_def)
      then show ?thesis by (rule plain)
    next
      case True
      with Some have cd: "char_device_of e ent = [d]" by (simp add: char_device_of_def)
      let ?s2 = "log_call (IdentifyFilesystem_call d) ?s1"
      show ?thesis
      proof (cases "IdentifyFilesystem e d")
        case None
        with Some True assms have "b = False" "s' = ?s2"
          by (simp_all add: MountSystemVolume_body_def Let_def)
        with None cd show ?thesis
          by (intro exI [of _ "[FindDir_call ent, IdentifyFilesystem_call d]"])
             (simp add: log_call_def with_filesystem_def as_system_def)
      next
        case drv: (Some drv)
        with cd have wf: "with_filesystem e (char_device_of e ent) = [d]"
          by (simp add: with_filesystem_def)
        from drv Some True assms have
          "(case Mount_driver e d drv (Some ''system'') ?s2 of
              Inl a \<Rightarrow> Inl a | Inr (ret, s3) \<Rightarrow> Inr (ret = Ok, s3)) = Inr (b, s')"
          by (simp add: MountSystemVolume_body_def Let_def)
        then obtain ret where
          m: "Mount_driver e d drv (Some ''system'') ?s2 = Inr (ret, s')" and b: "b = (ret = Ok)"
          by (cases "Mount_driver e d drv (Some ''system'') ?s2") auto
        from Mount_driver_named_effect [OF m True] obtain new where
          h: "calls s' = calls ?s2 @ new" "ReadDir_indices new = []" "FindDir_names new = []"
             "IdentifyFilesystem_devices new = []" "DriverMount_args new = [(d, ''system'')]"
             "nextVolumeName s' = nextVolumeName ?s2" "systemVolume s' = systemVolume ?s2"
             "ret = Ok \<longrightarrow> (\<exists>v. volumes s' = volumes ?s2 @ [v])"
             "ret \<noteq> Ok \<longrightarrow> volumes s' = volumes ?s2"
          by blast
        let ?new = "FindDir_call ent # IdentifyFilesystem_call d # new"
        have c1: "calls s' = calls s @ ?new"
          using h(1) by (simp add: log_call_def)
        have c2: "ReadDir_indices ?new = []" "FindDir_names ?new = [ent]"
          using h(2,3) by simp_all
        have c3: "IdentifyFilesystem_devices ?new = char_device_of e ent"
          using h(4) cd by simp
        have c4: "DriverMount_args ?new = as_system (with_filesystem e (char_device_of e ent))"
          using h(5) unfolding wf by (simp add: as_system_def)
        have c5: "nextVolumeName s' = nextVolumeName s" "systemVolume s' = systemVolume s"
          using h(6,7) by (simp_all add: log_call_def)
        have c6: "b \<longrightarrow> with_filesystem e (char_device_of e ent) \<noteq> []
                    \<and> (\<exists>v. volumes s' = volumes s @ [v])"
          using h(8) unfolding b wf by (simp add: log_call_def)
        have c7: "\<not> b \<longrightarrow> volumes s' = volumes s"
          using h(9) unfolding b by (simp add: log_call_def)
        from c1 c2 c3 c4 c5 c6 c7 show ?thesis by (intro exI [of _ ?new]) blast
      qed
    qed
  qed
qed

text \<open>The loop from index \<open>i\<close>, by induction on the number of entries left.\<close>

lemma MountSystemVolume_loop_effect:
  "MountSystemVolume_loop e ents i s = Inr (j, s') \<Longrightarrow> i \<le> length ents \<Longrightarrow>
     \<exists>new. calls s' = calls s @ new \<and> ReadDir_indices new = [i..<j]
        \<and> FindDir_names new = drop i (take j ents)
        \<and> IdentifyFilesystem_devices new = char_devices e (drop i (take j ents))
        \<and> DriverMount_args new
             = as_system (with_filesystem e (char_devices e (drop i (take j ents))))
        \<and> nextVolumeName s' = nextVolumeName s \<and> systemVolume s' = systemVolume s
        \<and> i < j \<and> j \<le> length ents + 1
        \<and> (j \<le> length ents \<longrightarrow>
             with_filesystem e (char_device_of e (ents ! (j - 1))) \<noteq> []
             \<and> (\<exists>v. volumes s' = volumes s @ [v]))
        \<and> (length ents < j \<longrightarrow> volumes s' = volumes s)"
proof (induction "length ents - i" arbitrary: i s)
  case 0
  then have ge: "\<not> i < length ents" by simp
  with "0.prems"(1) have j: "j = i + 1" and s': "s' = log_call (ReadDir_call i) s"
    by (simp_all add: MountSystemVolume_loop.simps [of e ents i s] Let_def)
  from ge have "drop i (take j ents) = []" by simp
  with j s' ge "0.prems"(2) show ?case
    by (intro exI [of _ "[ReadDir_call i]"])
       (simp add: log_call_def char_devices_simps with_filesystem_def as_system_def)
next
  case (Suc n)
  then have lt: "i < length ents" by simp
  let ?s1 = "log_call (ReadDir_call i) s"
  from Suc.prems(1) lt have run:
    "(case MountSystemVolume_body e (ents ! i) ?s1 of
        Inl a \<Rightarrow> Inl a
      | Inr (True, s2) \<Rightarrow> Inr (i + 1, s2)
      | Inr (False, s2) \<Rightarrow> MountSystemVolume_loop e ents (i + 1) s2) = Inr (j, s')"
    by (simp add: MountSystemVolume_loop.simps [of e ents i s] Let_def)
  then obtain b s2 where body: "MountSystemVolume_body e (ents ! i) ?s1 = Inr (b, s2)"
    by (cases "MountSystemVolume_body e (ents ! i) ?s1") auto
  from MountSystemVolume_body_effect [OF body] obtain nb where
    nb: "calls s2 = calls ?s1 @ nb" "ReadDir_indices nb = []" "FindDir_names nb = [ents ! i]"
        "IdentifyFilesystem_devices nb = char_device_of e (ents ! i)"
        "DriverMount_args nb = as_system (with_filesystem e (char_device_of e (ents ! i)))"
        "nextVolumeName s2 = nextVolumeName ?s1" "systemVolume s2 = systemVolume ?s1"
        "b \<longrightarrow> with_filesystem e (char_device_of e (ents ! i)) \<noteq> []
               \<and> (\<exists>v. volumes s2 = volumes ?s1 @ [v])"
        "\<not> b \<longrightarrow> volumes s2 = volumes ?s1"
    by blast
  show ?case
  proof (cases b)
    case True
    with run body have j: "j = i + 1" and s': "s' = s2" by simp_all
    let ?new = "ReadDir_call i # nb"
    have d: "drop i (take j ents) = [ents ! i]"
      using lt unfolding j by (simp add: take_Suc_conv_app_nth)
    have c1: "calls s' = calls s @ ?new" using nb(1) s' by (simp add: log_call_def)
    have c2: "ReadDir_indices ?new = [i..<j]" using nb(2) j by simp
    have c3: "FindDir_names ?new = drop i (take j ents)" using nb(3) d by simp
    have c4: "IdentifyFilesystem_devices ?new = char_devices e (drop i (take j ents))"
      using nb(4) unfolding d by (simp add: char_devices_simps)
    have c5: "DriverMount_args ?new
                = as_system (with_filesystem e (char_devices e (drop i (take j ents))))"
      using nb(5) unfolding d by (simp add: char_devices_simps)
    have c6: "nextVolumeName s' = nextVolumeName s" "systemVolume s' = systemVolume s"
      using nb(6,7) s' by (simp_all add: log_call_def)
    have c7: "i < j" "j \<le> length ents + 1" "j \<le> length ents" using j lt by simp_all
    have c8: "with_filesystem e (char_device_of e (ents ! (j - 1))) \<noteq> []
                \<and> (\<exists>v. volumes s' = volumes s @ [v])"
      using nb(8) True s' j by (simp add: log_call_def)
    from c1 c2 c3 c4 c5 c6 c7 c8 show ?thesis by (intro exI [of _ ?new]) auto
  next
    case False
    with run body have rec: "MountSystemVolume_loop e ents (i + 1) s2 = Inr (j, s')" by simp
    from Suc.hyps(2) lt have "n = length ents - (i + 1)" "i + 1 \<le> length ents" by simp_all
    from Suc.hyps(1) [OF this(1) rec this(2)] obtain nr where
      nr: "calls s' = calls s2 @ nr" "ReadDir_indices nr = [i + 1..<j]"
          "FindDir_names nr = drop (i + 1) (take j ents)"
          "IdentifyFilesystem_devices nr = char_devices e (drop (i + 1) (take j ents))"
          "DriverMount_args nr
             = as_system (with_filesystem e (char_devices e (drop (i + 1) (take j ents))))"
          "nextVolumeName s' = nextVolumeName s2" "systemVolume s' = systemVolume s2"
          "i + 1 < j" "j \<le> length ents + 1"
          "j \<le> length ents \<longrightarrow>
             with_filesystem e (char_device_of e (ents ! (j - 1))) \<noteq> []
             \<and> (\<exists>v. volumes s' = volumes s2 @ [v])"
          "length ents < j \<longrightarrow> volumes s' = volumes s2"
      by blast
    let ?new = "ReadDir_call i # nb @ nr"
    from False nb(9) have v2: "volumes s2 = volumes s" by (simp add: log_call_def)
    have "i < length (take j ents)" using lt nr(8) by simp
    from Cons_nth_drop_Suc [OF this]
    have d: "drop i (take j ents) = ents ! i # drop (i + 1) (take j ents)"
      using nr(8) by simp
    have c1: "calls s' = calls s @ ?new" using nb(1) nr(1) by (simp add: log_call_def)
    have c2: "ReadDir_indices ?new = [i..<j]"
      using nb(2) nr(2,8) by (simp add: ReadDir_indices_append upt_conv_Cons)
    have c3: "FindDir_names ?new = drop i (take j ents)"
      using nb(3) nr(3) d by (simp add: FindDir_names_append)
    have c4: "IdentifyFilesystem_devices ?new = char_devices e (drop i (take j ents))"
      unfolding d using nb(4) nr(4)
      by (simp add: IdentifyFilesystem_devices_append char_devices_simps)
    have c5: "DriverMount_args ?new
                = as_system (with_filesystem e (char_devices e (drop i (take j ents))))"
      unfolding d using nb(5) nr(5)
      by (simp add: DriverMount_args_append char_devices_simps with_filesystem_append
            as_system_append)
    have c6: "nextVolumeName s' = nextVolumeName s" "systemVolume s' = systemVolume s"
      using nb(6,7) nr(6,7) by (simp_all add: log_call_def)
    have c7: "i < j" "j \<le> length ents + 1" using nr(8,9) by simp_all
    have c8: "j \<le> length ents \<longrightarrow>
             with_filesystem e (char_device_of e (ents ! (j - 1))) \<noteq> []
             \<and> (\<exists>v. volumes s' = volumes s @ [v])"
      using nr(10) v2 by simp
    have c9: "length ents < j \<longrightarrow> volumes s' = volumes s" using nr(11) v2 by simp
    from c1 c2 c3 c4 c5 c6 c7 c8 c9 show ?thesis by (intro exI [of _ ?new]) blast
  qed
qed

lemma MountSystemVolume_three_devices:
  assumes dir: "devFS e = Some [a, b, c]"
    and a: "FindDir e a = Some da" "IsCharDevice da" "IdentifyFilesystem e da = None"
    and b: "FindDir e b = Some db" "IsCharDevice db" "IdentifyFilesystem e db = Some drv"
    and drv: "Identify drv db" "DriverMount drv db ''system'' (vol s) = (Some v, mem)"
  shows "\<exists>s'. MountSystemVolume e s = Inr s' \<and> volumes s' = volumes s @ [v]
           \<and> calls s' = calls s @
                [ReadDir_call 0, FindDir_call a, IdentifyFilesystem_call da,
                 ReadDir_call 1, FindDir_call b, IdentifyFilesystem_call db,
                 Identify_call db, DriverMount_call db ''system'']"
proof -
  let ?s0 = "log_call (ReadDir_call 0) s"
  let ?sa = "log_call (IdentifyFilesystem_call da) (log_call (FindDir_call a) ?s0)"
  let ?s1 = "log_call (ReadDir_call (Suc 0)) ?sa"
  let ?sb = "log_call (Identify_call db)
               (log_call (IdentifyFilesystem_call db) (log_call (FindDir_call b) ?s1))"
  let ?sm = "log_call (DriverMount_call db ''system'') (?sb\<lparr>vol := mem\<rparr>)"
  let ?s' = "RegisterVolume e v ?sm"
  have body_a: "MountSystemVolume_body e a ?s0 = Inr (False, ?sa)"
    using a by (simp add: MountSystemVolume_body_def Let_def)
  have len: "length ''system'' < NAME_MAX" by (simp add: NAME_MAX_def)
  have volb: "vol ?sb = vol s" by (simp add: log_call_def)
  have fin: "Mount_finish e db drv ''system'' ?sb = (Ok, ?s')"
    unfolding Mount_finish_def volb drv(2) by (simp add: Let_def)
  have mnt: "Mount_driver e db drv (Some ''system'')
               (log_call (IdentifyFilesystem_call db) (log_call (FindDir_call b) ?s1))
             = Inr (Ok, ?s')"
    unfolding Mount_driver_def using b(2) drv(1) len fin by (simp add: Let_def)
  have body_b: "MountSystemVolume_body e b ?s1 = Inr (True, ?s')"
    unfolding MountSystemVolume_body_def using b mnt by (simp add: Let_def)
  have l1: "MountSystemVolume_loop e [a, b, c] (Suc 0) ?sa = Inr (2, ?s')"
    using body_b by (simp add: MountSystemVolume_loop.simps [of e "[a, b, c]" "Suc 0"] Let_def)
  have l0: "MountSystemVolume_loop e [a, b, c] 0 s = Inr (2, ?s')"
    using body_a l1 by (simp add: MountSystemVolume_loop.simps [of e "[a, b, c]" 0] Let_def)
  have r: "MountSystemVolume e s = Inr ?s'"
    using dir l0 by (simp add: MountSystemVolume_def)
  have v: "volumes ?s' = volumes s @ [v]"
    by (simp add: RegisterVolume_fields log_call_def)
  have c: "calls ?s' = calls s @
                [ReadDir_call 0, FindDir_call a, IdentifyFilesystem_call da,
                 ReadDir_call 1, FindDir_call b, IdentifyFilesystem_call db,
                 Identify_call db, DriverMount_call db ''system'']"
    by (simp add: RegisterVolume_fields log_call_def)
  from r v c show ?thesis by blast
qed

lemma MountSystemVolume_effect:
  assumes dir: "devFS e = Some ents" and run: "MountSystemVolume e s = Inr s'"
  shows "\<exists>j new. MountSystemVolume_loop e ents 0 s = Inr (j, s')
           \<and> calls s' = calls s @ new \<and> ReadDir_indices new = [0..<j]
           \<and> FindDir_names new = take j ents
           \<and> IdentifyFilesystem_devices new = char_devices e (take j ents)
           \<and> DriverMount_args new = as_system (with_filesystem e (char_devices e (take j ents)))
           \<and> nextVolumeName s' = nextVolumeName s \<and> systemVolume s' = systemVolume s
           \<and> 0 < j \<and> j \<le> length ents + 1
           \<and> (j \<le> length ents \<longrightarrow>
                with_filesystem e (char_device_of e (ents ! (j - 1))) \<noteq> []
                \<and> (\<exists>v. volumes s' = volumes s @ [v]))
           \<and> (length ents < j \<longrightarrow> volumes s' = volumes s)"
proof -
  from run dir obtain j where l: "MountSystemVolume_loop e ents 0 s = Inr (j, s')"
    by (cases "MountSystemVolume_loop e ents 0 s") (auto simp: MountSystemVolume_def)
  from MountSystemVolume_loop_effect [OF l] l show ?thesis by simp
qed

lemma MountSystemVolume_keeps_systemVolume:
  assumes "MountSystemVolume e s = Inr s'"
  shows "systemVolume s' = systemVolume s"
proof -
  from assms obtain ents where "devFS e = Some ents"
    by (cases "devFS e") (auto simp: MountSystemVolume_def)
  from MountSystemVolume_effect [OF this assms] show ?thesis by blast
qed

text \<open>When the scan returns: it does whenever no assertion fires.\<close>

lemma drivers_identify_Cons:
  "drivers_identify e (x # xs) \<longleftrightarrow> drivers_identify e [x] \<and> drivers_identify e xs"
  by (simp add: drivers_identify_def char_devices_def)

lemma Mount_driver_named_returns:
  assumes "IsCharDevice d" and "Identify drv d" and "length n < NAME_MAX"
  shows "\<exists>c s'. Mount_driver e d drv (Some n) s = Inr (c, s')"
proof -
  obtain c s' where "Mount_finish e d drv n (log_call (Identify_call d) s) = (c, s')"
    by (cases "Mount_finish e d drv n (log_call (Identify_call d) s)") blast
  with assms have "Mount_driver e d drv (Some n) s = Inr (c, s')"
    by (simp add: Mount_driver_def Let_def)
  then show ?thesis by blast
qed

lemma MountSystemVolume_body_returns:
  assumes "drivers_identify e [ent]"
  shows "\<exists>b s'. MountSystemVolume_body e ent s = Inr (b, s')"
proof (cases "FindDir e ent")
  case None
  then have "MountSystemVolume_body e ent s = Inr (False, log_call (FindDir_call ent) s)"
    by (simp add: MountSystemVolume_body_def Let_def)
  then show ?thesis by blast
next
  case (Some d)
  show ?thesis
  proof (cases "IsCharDevice d")
    case False
    with Some have "MountSystemVolume_body e ent s = Inr (False, log_call (FindDir_call ent) s)"
      by (simp add: MountSystemVolume_body_def Let_def)
    then show ?thesis by blast
  next
    case True
    show ?thesis
    proof (cases "IdentifyFilesystem e d")
      case None
      with Some True have "MountSystemVolume_body e ent s
          = Inr (False, log_call (IdentifyFilesystem_call d) (log_call (FindDir_call ent) s))"
        by (simp add: MountSystemVolume_body_def Let_def)
      then show ?thesis by blast
    next
      case drv: (Some drv)
      from assms Some True drv have i: "Identify drv d"
        by (simp add: drivers_identify_def char_devices_def char_device_of_def)
      have l: "length ''system'' < NAME_MAX" by (simp add: NAME_MAX_def)
      let ?s2 = "log_call (IdentifyFilesystem_call d) (log_call (FindDir_call ent) s)"
      from Mount_driver_named_returns [OF True i l, of e ?s2] obtain c s' where
        "Mount_driver e d drv (Some ''system'') ?s2 = Inr (c, s')" by blast
      with Some True drv have "MountSystemVolume_body e ent s = Inr (c = Ok, s')"
        by (simp add: MountSystemVolume_body_def Let_def)
      then show ?thesis by blast
    qed
  qed
qed

lemma MountSystemVolume_loop_returns:
  "drivers_identify e (drop i ents) \<Longrightarrow> \<exists>j s'. MountSystemVolume_loop e ents i s = Inr (j, s')"
proof (induction "length ents - i" arbitrary: i s)
  case 0
  then have "\<not> i < length ents" by simp
  then show ?case by (simp add: MountSystemVolume_loop.simps [of e ents i s] Let_def)
next
  case (Suc n)
  then have lt: "i < length ents" by simp
  then have d: "drop i ents = ents ! i # drop (i + 1) ents"
    by (simp add: Cons_nth_drop_Suc)
  from Suc.prems have di: "drivers_identify e [ents ! i]" "drivers_identify e (drop (i + 1) ents)"
    unfolding d using drivers_identify_Cons [of e "ents ! i" "drop (i + 1) ents"] by simp_all
  let ?s1 = "log_call (ReadDir_call i) s"
  from MountSystemVolume_body_returns [OF di(1), of ?s1] obtain b s2 where
    body: "MountSystemVolume_body e (ents ! i) ?s1 = Inr (b, s2)" by blast
  show ?case
  proof (cases b)
    case True
    with body lt show ?thesis
      by (simp add: MountSystemVolume_loop.simps [of e ents i s] Let_def)
  next
    case False
    from Suc.hyps(2) lt have "n = length ents - (i + 1)" by simp
    from Suc.hyps(1) [OF this di(2), of s2] obtain j s' where
      "MountSystemVolume_loop e ents (i + 1) s2 = Inr (j, s')" by blast
    with body False lt show ?thesis
      by (simp add: MountSystemVolume_loop.simps [of e ents i s] Let_def)
  qed
qed

lemma MountSystemVolume_returns:
  assumes "devFS e = Some ents" and "drivers_identify e ents"
  shows "\<exists>s'. MountSystemVolume e s = Inr s'"
proof -
  from MountSystemVolume_loop_returns [of e 0 ents s] assms(2) obtain j s' where
    "MountSystemVolume_loop e ents 0 s = Inr (j, s')" by auto
  with assms(1) show ?thesis by (simp add: MountSystemVolume_def)
qed

lemma MountSystemVolume_no_dev:
  "devFS e = None \<Longrightarrow> MountSystemVolume e s = Inl Assert_devFS"
  by (simp add: MountSystemVolume_def)

text \<open>
  \<^bold>\<open>C5\<close>, as the code has it. When \<open>MountSystemVolume\<close> returns, with the loop left
  at index \<open>j\<close>: \<^verbatim>\<open>ReadDir\<close> was called with the indices 0, 1, ..., \<open>j - 1\<close> in that
  order; the entries looked up are the first \<open>j\<close> entries of the directory in their
  order and none after them; the identification service was asked about exactly the
  character devices among them, in order; a driver was asked to mount, under the name
  \<open>system\<close>, exactly those of them that have a driver, in order; and either \<open>j\<close> is
  within the directory, entry \<open>j - 1\<close> is a character device with a driver and the
  registry grew by exactly one volume, or the directory is exhausted and the volume
  list is as before.
  The scan does return whenever \<^verbatim>\<open>/dev\<close> resolves and the identification service
  only hands out drivers that identify the device; it aborts when \<^verbatim>\<open>/dev\<close> does not
  resolve.
  In particular, in a directory of three entries whose first is a character device
  with no filesystem and whose second is a character device that a driver identifies
  \<^emph>\<open>and mounts\<close>, the scan registers the volume of the second device and its calls
  are exactly those for entries 0 and 1: the third entry is never read.
\<close>

theorem MountSystemVolume_boot_scan:
  "(\<forall>e ents s s'. devFS e = Some ents \<and> MountSystemVolume e s = Inr s' \<longrightarrow>
      (\<exists>j new. MountSystemVolume_loop e ents 0 s = Inr (j, s')
           \<and> calls s' = calls s @ new \<and> ReadDir_indices new = [0..<j]
           \<and> FindDir_names new = take j ents
           \<and> IdentifyFilesystem_devices new = char_devices e (take j ents)
           \<and> DriverMount_args new = as_system (with_filesystem e (char_devices e (take j ents)))
           \<and> 0 < j \<and> j \<le> length ents + 1
           \<and> (j \<le> length ents \<longrightarrow>
                with_filesystem e (char_device_of e (ents ! (j - 1))) \<noteq> []
                \<and> (\<exists>v. volumes s' = volumes s @ [v]))
           \<and> (length ents < j \<longrightarrow> volumes s' = volumes s)))
   \<and> (\<forall>e ents s. devFS e = Some ents \<and> drivers_identify e ents \<longrightarrow>
        (\<exists>s'. MountSystemVolume e s = Inr s'))
   \<and> (\<forall>e s. devFS e = None \<longrightarrow> MountSystemVolume e s = Inl Assert_devFS)
   \<and> (\<forall>e a b c da db drv v mem s.
        devFS e = Some [a, b, c]
        \<and> FindDir e a = Some da \<and> IsCharDevice da \<and> IdentifyFilesystem e da = None
        \<and> FindDir e b = Some db \<and> IsCharDevice db \<and> IdentifyFilesystem e db = Some drv
        \<and> Identify drv db \<and> DriverMount drv db ''system'' (vol s) = (Some v, mem) \<longrightarrow>
        (\<exists>s'. MountSystemVolume e s = Inr s' \<and> volumes s' = volumes s @ [v]
           \<and> calls s' = calls s @
                [ReadDir_call 0, FindDir_call a, IdentifyFilesystem_call da,
                 ReadDir_call 1, FindDir_call b, IdentifyFilesystem_call db,
                 Identify_call db, DriverMount_call db ''system'']))"
proof (intro conjI allI impI)
  fix e ents s s'
  assume "devFS e = Some ents \<and> MountSystemVolume e s = Inr s'"
  then have h: "devFS e = Some ents" "MountSystemVolume e s = Inr s'" by simp_all
  from MountSystemVolume_effect [OF h]
  show "\<exists>j new. MountSystemVolume_loop e ents 0 s = Inr (j, s')
           \<and> calls s' = calls s @ new \<and> ReadDir_indices new = [0..<j]
           \<and> FindDir_names new = take j ents
           \<and> IdentifyFilesystem_devices new = char_devices e (take j ents)
           \<and> DriverMount_args new = as_system (with_filesystem e (char_devices e (take j ents)))
           \<and> 0 < j \<and> j \<le> length ents + 1
           \<and> (j \<le> length ents \<longrightarrow>
                with_filesystem e (char_device_of e (ents ! (j - 1))) \<noteq> []
                \<and> (\<exists>v. volumes s' = volumes s @ [v]))
           \<and> (length ents < j \<longrightarrow> volumes s' = volumes s)"
    by blast
next
  fix ents and e :: env and s :: kernel
  assume "devFS e = Some ents \<and> drivers_identify e ents"
  then have h: "devFS e = Some ents" "drivers_identify e ents" by simp_all
  from MountSystemVolume_returns [OF h] show "\<exists>s'. MountSystemVolume e s = Inr s'" .
next
  fix e :: env and s :: kernel
  assume "devFS e = None"
  then show "MountSystemVolume e s = Inl Assert_devFS" by (rule MountSystemVolume_no_dev)
next
  fix a b c da db drv v mem and e :: env and s :: kernel
  assume "devFS e = Some [a, b, c]
        \<and> FindDir e a = Some da \<and> IsCharDevice da \<and> IdentifyFilesystem e da = None
        \<and> FindDir e b = Some db \<and> IsCharDevice db \<and> IdentifyFilesystem e db = Some drv
        \<and> Identify drv db \<and> DriverMount drv db ''system'' (vol s) = (Some v, mem)"
  then have h: "devFS e = Some [a, b, c]"
    "FindDir e a = Some da" "IsCharDevice da" "IdentifyFilesystem e da = None"
    "FindDir e b = Some db" "IsCharDevice db" "IdentifyFilesystem e db = Some drv"
    "Identify drv db" "DriverMount drv db ''system'' (vol s) = (Some v, mem)" by simp_all
  from MountSystemVolume_three_devices [OF h]
  show "\<exists>s'. MountSystemVolume e s = Inr s' \<and> volumes s' = volumes s @ [v]
           \<and> calls s' = calls s @
                [ReadDir_call 0, FindDir_call a, IdentifyFilesystem_call da,
                 ReadDir_call 1, FindDir_call b, IdentifyFilesystem_call db,
                 Identify_call db, DriverMount_call db ''system'']" .
qed

theorem MountSystemVolume_boot_scan_witness:
  "devFS dev_env = Some [''sda'', ''sdb'', ''sdc'']
   \<and> drivers_identify dev_env [''sda'', ''sdb'', ''sdc'']
   \<and> FindDir dev_env ''sda'' = Some (chardev 1) \<and> IsCharDevice (chardev 1)
   \<and> IdentifyFilesystem dev_env (chardev 1) = None
   \<and> FindDir dev_env ''sdb'' = Some (chardev 2) \<and> IsCharDevice (chardev 2)
   \<and> IdentifyFilesystem dev_env (chardev 2) = Some drv_ok \<and> Identify drv_ok (chardev 2)
   \<and> fst (DriverMount drv_ok (chardev 2) ''system'' (vol fresh)) = Some 1002
   \<and> FindDir dev_env ''sdc'' = Some (chardev 3) \<and> IsCharDevice (chardev 3)
   \<and> IdentifyFilesystem dev_env (chardev 3) = None
   \<and> isl (MountSystemVolume dev_env fresh) = False
   \<and> map_sum id volumes (MountSystemVolume dev_env fresh) = Inr [1002]
   \<and> map_sum id (FindDir_names \<circ> calls) (MountSystemVolume dev_env fresh) = Inr [''sda'', ''sdb'']
   \<and> map_sum id (ReadDir_indices \<circ> calls) (MountSystemVolume dev_env fresh) = Inr [0, 1]
   \<and> map_sum id (DriverMount_args \<circ> calls) (MountSystemVolume dev_env fresh)
        = Inr [(chardev 2, ''system'')]
   \<and> map_sum id (IdentifyFilesystem_devices \<circ> calls) (MountSystemVolume dev_env fresh)
        = Inr [chardev 1, chardev 2]"
proof -
  let ?mem = "(vol fresh)(1002 := \<lparr>mountPointDirent_name = ''system'', volumeID = 0,
                                   mountPoint = Some 2002\<rparr>)"
  have h: "devFS dev_env = Some [''sda'', ''sdb'', ''sdc'']
        \<and> FindDir dev_env ''sda'' = Some (chardev 1) \<and> IsCharDevice (chardev 1)
        \<and> IdentifyFilesystem dev_env (chardev 1) = None
        \<and> FindDir dev_env ''sdb'' = Some (chardev 2) \<and> IsCharDevice (chardev 2)
        \<and> IdentifyFilesystem dev_env (chardev 2) = Some drv_ok
        \<and> Identify drv_ok (chardev 2)
        \<and> DriverMount drv_ok (chardev 2) ''system'' (vol fresh) = (Some 1002, ?mem)"
    by (simp add: dev_env_def chardev_def drv_ok_def)
  have t: "FindDir dev_env ''sdc'' = Some (chardev 3) \<and> IsCharDevice (chardev 3)
        \<and> IdentifyFilesystem dev_env (chardev 3) = None"
    by (simp add: dev_env_def chardev_def)
  have di: "drivers_identify dev_env [''sda'', ''sdb'', ''sdc'']"
    by (simp add: drivers_identify_def char_devices_def char_device_of_def dev_env_def
          chardev_def drv_ok_def)
  have f: "calls fresh = []" "volumes fresh = []" by (simp_all add: fresh_def Initialize_def)
  from MountSystemVolume_boot_scan h di obtain s0 where
    "MountSystemVolume dev_env fresh = Inr s0" by blast
  then have tot: "isl (MountSystemVolume dev_env fresh) = False" by simp
  from MountSystemVolume_boot_scan h obtain s' where
    s': "MountSystemVolume dev_env fresh = Inr s'" "volumes s' = volumes fresh @ [1002]"
        "calls s' = calls fresh @
                [ReadDir_call 0, FindDir_call ''sda'', IdentifyFilesystem_call (chardev 1),
                 ReadDir_call 1, FindDir_call ''sdb'', IdentifyFilesystem_call (chardev 2),
                 Identify_call (chardev 2), DriverMount_call (chardev 2) ''system'']"
    by blast
  from s' f have r: "map_sum id volumes (MountSystemVolume dev_env fresh) = Inr [1002]"
    "map_sum id (FindDir_names \<circ> calls) (MountSystemVolume dev_env fresh) = Inr [''sda'', ''sdb'']"
    "map_sum id (ReadDir_indices \<circ> calls) (MountSystemVolume dev_env fresh) = Inr [0, 1]"
    "map_sum id (DriverMount_args \<circ> calls) (MountSystemVolume dev_env fresh)
        = Inr [(chardev 2, ''system'')]"
    "map_sum id (IdentifyFilesystem_devices \<circ> calls) (MountSystemVolume dev_env fresh)
        = Inr [chardev 1, chardev 2]"
    by simp_all
  from h have "fst (DriverMount drv_ok (chardev 2) ''system'' (vol fresh)) = Some 1002" by simp
  with h t di tot r show ?thesis by blast
qed

text \<open>
  Without the condition that the mount of the second device succeeds the particular
  case fails: with three character devices of which only the second is identified by
  a driver, and that driver returning null from \<^verbatim>\<open>Mount\<close>, the scan registers nothing
  and goes on to look up the third entry and ask the identification service about it.
\<close>

lemma dev_env_fail_boot:
  "\<exists>s'. MountSystemVolume dev_env_fail fresh = Inr s' \<and> volumes s' = []
      \<and> calls s' = [ReadDir_call 0, FindDir_call ''sda'', IdentifyFilesystem_call (chardev 1),
                     ReadDir_call 1, FindDir_call ''sdb'', IdentifyFilesystem_call (chardev 2),
                     Identify_call (chardev 2), DriverMount_call (chardev 2) ''system'',
                     LogError ''fs::VolumeManager::Mount: Unknown driver error mounting volume!'',
                     ReadDir_call 2, FindDir_call ''sdc'', IdentifyFilesystem_call (chardev 3),
                     ReadDir_call 3]"
  by (simp add: MountSystemVolume_def dev_env_fail_def dev_env_def fresh_def Initialize_def
        MountSystemVolume_loop.simps [of _ _ 0] MountSystemVolume_loop.simps [of _ _ "Suc 0"]
        MountSystemVolume_loop.simps [of _ _ "Suc (Suc 0)"]
        MountSystemVolume_loop.simps [of _ _ "Suc (Suc (Suc 0))"]
        MountSystemVolume_body_def Mount_driver_def Mount_finish_def
        log_call_def chardev_def drv_sdb_fail_def NAME_MAX_def Let_def)

theorem MountSystemVolume_mount_failure_counterexample:
  "devFS dev_env_fail = Some [''sda'', ''sdb'', ''sdc'']
   \<and> FindDir dev_env_fail ''sda'' = Some (chardev 1) \<and> IsCharDevice (chardev 1)
   \<and> FindDir dev_env_fail ''sdb'' = Some (chardev 2) \<and> IsCharDevice (chardev 2)
   \<and> FindDir dev_env_fail ''sdc'' = Some (chardev 3) \<and> IsCharDevice (chardev 3)
   \<and> \<not> Identify drv_sdb_fail (chardev 1) \<and> Identify drv_sdb_fail (chardev 2)
   \<and> \<not> Identify drv_sdb_fail (chardev 3)
   \<and> IdentifyFilesystem dev_env_fail (chardev 1) = None
   \<and> IdentifyFilesystem dev_env_fail (chardev 2) = Some drv_sdb_fail
   \<and> IdentifyFilesystem dev_env_fail (chardev 3) = None
   \<and> map_sum id volumes (MountSystemVolume dev_env_fail fresh) = Inr []
   \<and> map_sum id (ReadDir_indices \<circ> calls) (MountSystemVolume dev_env_fail fresh)
        = Inr [0, 1, 2, 3]
   \<and> map_sum id (FindDir_names \<circ> calls) (MountSystemVolume dev_env_fail fresh)
        = Inr [''sda'', ''sdb'', ''sdc'']
   \<and> map_sum id (IdentifyFilesystem_devices \<circ> calls) (MountSystemVolume dev_env_fail fresh)
        = Inr [chardev 1, chardev 2, chardev 3]
   \<and> map_sum id (DriverMount_args \<circ> calls) (MountSystemVolume dev_env_fail fresh)
        = Inr [(chardev 2, ''system'')]"
proof -
  have e: "devFS dev_env_fail = Some [''sda'', ''sdb'', ''sdc'']
   \<and> FindDir dev_env_fail ''sda'' = Some (chardev 1) \<and> IsCharDevice (chardev 1)
   \<and> FindDir dev_env_fail ''sdb'' = Some (chardev 2) \<and> IsCharDevice (chardev 2)
   \<and> FindDir dev_env_fail ''sdc'' = Some (chardev 3) \<and> IsCharDevice (chardev 3)"
    by (simp add: dev_env_fail_def dev_env_def chardev_def)
  have i: "\<not> Identify drv_sdb_fail (chardev 1) \<and> Identify drv_sdb_fail (chardev 2)
   \<and> \<not> Identify drv_sdb_fail (chardev 3)"
    by (simp add: drv_sdb_fail_def chardev_def)
  then have f: "IdentifyFilesystem dev_env_fail (chardev 1) = None
   \<and> IdentifyFilesystem dev_env_fail (chardev 2) = Some drv_sdb_fail
   \<and> IdentifyFilesystem dev_env_fail (chardev 3) = None"
    by (simp add: dev_env_fail_def)
  from dev_env_fail_boot obtain s' where
    s': "MountSystemVolume dev_env_fail fresh = Inr s'" "volumes s' = []"
      "calls s' = [ReadDir_call 0, FindDir_call ''sda'', IdentifyFilesystem_call (chardev 1),
                     ReadDir_call 1, FindDir_call ''sdb'', IdentifyFilesystem_call (chardev 2),
                     Identify_call (chardev 2), DriverMount_call (chardev 2) ''system'',
                     LogError ''fs::VolumeManager::Mount: Unknown driver error mounting volume!'',
                     ReadDir_call 2, FindDir_call ''sdc'', IdentifyFilesystem_call (chardev 3),
                     ReadDir_call 3]"
    by blast
  then have r: "map_sum id volumes (MountSystemVolume dev_env_fail fresh) = Inr []"
    "map_sum id (ReadDir_indices \<circ> calls) (MountSystemVolume dev_env_fail fresh)
        = Inr [0, 1, 2, 3]"
    "map_sum id (FindDir_names \<circ> calls) (MountSystemVolume dev_env_fail fresh)
        = Inr [''sda'', ''sdb'', ''sdc'']"
    "map_sum id (IdentifyFilesystem_devices \<circ> calls) (MountSystemVolume dev_env_fail fresh)
        = Inr [chardev 1, chardev 2, chardev 3]"
    "map_sum id (DriverMount_args \<circ> calls) (MountSystemVolume dev_env_fail fresh)
        = Inr [(chardev 2, ''system'')]"
    by simp_all
  from e i f r show ?thesis by blast
qed

lemma dev_env_boot:
  "\<exists>s'. MountSystemVolume dev_env fresh = Inr s' \<and> volumes s' = [1002]
      \<and> systemVolume s' = None
      \<and> mountPointDirent_name (vol s' 1002) = ''system'' \<and> volumeID (vol s' 1002) = 1
      \<and> calls s' = [ReadDir_call 0, FindDir_call ''sda'', IdentifyFilesystem_call (chardev 1),
                     ReadDir_call 1, FindDir_call ''sdb'', IdentifyFilesystem_call (chardev 2),
                     Identify_call (chardev 2), DriverMount_call (chardev 2) ''system'']"
  by (simp add: MountSystemVolume_def dev_env_def fresh_def Initialize_def
        MountSystemVolume_loop.simps [of _ _ 0] MountSystemVolume_loop.simps [of _ _ "Suc 0"]
        MountSystemVolume_body_def Mount_driver_def Mount_finish_def RegisterVolume_def
        log_call_def chardev_def drv_ok_def NAME_MAX_def Let_def)


text \<open>
  \<^bold>\<open>C1.\<close> No statement of the file assigns \<open>systemVolume\<close>, so a boot scan that
  mounts a volume still leaves it null (\<open>MountSystemVolume_keeps_systemVolume\<close>) and
  the \<open>SystemVolume()\<close> that follows fails its assertion. On the example machine the
  scan registers the volume at address 1002 and \<open>SystemVolume\<close> aborts.
\<close>

theorem MountSystemVolume_leaves_systemVolume_null:
  "map_sum id volumes (MountSystemVolume dev_env fresh) = Inr [1002]
   \<and> map_sum id systemVolume (MountSystemVolume dev_env fresh) = Inr None
   \<and> map_sum id SystemVolume (MountSystemVolume dev_env fresh) = Inr (Inl Assert_systemVolume)"
proof -
  from dev_env_boot obtain s' where "MountSystemVolume dev_env fresh = Inr s'"
    "volumes s' = [1002]" "systemVolume s' = None" by blast
  then show ?thesis by (simp add: SystemVolume_def)
qed

section \<open>Synthesized names\<close>

lemma unat_scast_nonneg:
  fixes k :: "32 word"
  assumes "0 \<le> sint k"
  shows "unat (scast k :: 64 word) = nat (sint k)"
proof -
  have "sint k < 2 ^ 31" using sint_lt [of k] by simp
  then have lt: "sint k < 2 ^ 64" by simp
  have "uint (word_of_int (sint k) :: 64 word) = take_bit 64 (sint k)"
    by (simp only: uint_word_of_int_eq) simp
  also have "\<dots> = sint k"
    using assms lt by (intro take_bit_int_eq_self) auto
  finally have "uint (word_of_int (sint k) :: 64 word) = sint k" .
  then have "nat (uint (scast k :: 64 word)) = nat (sint k)"
    by (simp only: scast_eq)
  then show ?thesis by (simp only: unat_eq_nat_uint)
qed

lemma Mount_driver_no_name:
  assumes "IsCharDevice dev" and "Identify drv dev"
  shows "\<exists>c s' new. Mount_driver e dev drv None s = Inr (c, s')
           \<and> calls s' = calls s @ new
           \<and> DriverMount_args new = [(dev, ''volume'' @ itoa (scast (nextVolumeName s)))]
           \<and> nextVolumeName s' = nextVolumeName s + 1"
proof -
  let ?n = "''volume'' @ itoa (scast (nextVolumeName s))"
  let ?s1 = "(log_call (Identify_call dev) s)\<lparr>nextVolumeName := nextVolumeName s + 1\<rparr>"
  obtain c s' where f: "Mount_finish e dev drv ?n ?s1 = (c, s')"
    by (cases "Mount_finish e dev drv ?n ?s1") blast
  from assms f have m: "Mount_driver e dev drv None s = Inr (c, s')"
    by (simp add: Mount_driver_def Let_def log_call_def)
  from Mount_finish_effect [OF f] obtain new where
    h: "calls s' = calls ?s1 @ new" "DriverMount_args new = [(dev, ?n)]"
       "nextVolumeName s' = nextVolumeName ?s1" by blast
  let ?new = "Identify_call dev # new"
  have c1: "calls s' = calls s @ ?new" using h(1) by (simp add: log_call_def)
  have c2: "DriverMount_args ?new = [(dev, ?n)]" using h(2) by simp
  have c3: "nextVolumeName s' = nextVolumeName s + 1" using h(3) by simp
  from m c1 c2 c3 show ?thesis by blast
qed

lemma Unmount_loop_fields:
  "nextVolumeName (snd (Unmount_loop vs name s)) = nextVolumeName s
   \<and> calls (snd (Unmount_loop vs name s)) = calls s
   \<and> nextVolumeID (snd (Unmount_loop vs name s)) = nextVolumeID s
   \<and> systemVolume (snd (Unmount_loop vs name s)) = systemVolume s"
  by (induction vs) (simp_all add: UnregisterVolume_fields)

lemma unmounts_fields:
  "nextVolumeName (unmounts names s) = nextVolumeName s \<and> calls (unmounts names s) = calls s"
  by (induction names arbitrary: s) (simp_all add: Unmount_def Unmount_loop_fields)

lemma two_unnamed_mounts:
  assumes "IsCharDevice d1" "Identify drv1 d1" "IsCharDevice d2" "Identify drv2 d2"
  shows "\<exists>c1 s1 c2 s2. Mount_driver e d1 drv1 None (Initialize mem par) = Inr (c1, s1)
           \<and> Mount_driver e d2 drv2 None (unmounts names s1) = Inr (c2, s2)
           \<and> DriverMount_args (calls s2) = [(d1, ''volume0''), (d2, ''volume1'')]"
proof -
  let ?s0 = "Initialize mem par"
  have i: "nextVolumeName ?s0 = 0" "calls ?s0 = []" by (simp_all add: Initialize_def)
  from Mount_driver_no_name [OF assms(1,2), of e ?s0] obtain c1 s1 n1 where
    a: "Mount_driver e d1 drv1 None ?s0 = Inr (c1, s1)" "calls s1 = calls ?s0 @ n1"
       "DriverMount_args n1 = [(d1, ''volume'' @ itoa (scast (nextVolumeName ?s0)))]"
       "nextVolumeName s1 = nextVolumeName ?s0 + 1" by blast
  let ?s = "unmounts names s1"
  have u: "nextVolumeName ?s = 1" "calls ?s = n1" using a(2,4) i by (simp_all add: unmounts_fields)
  from Mount_driver_no_name [OF assms(3,4), of e ?s] obtain c2 s2 n2 where
    b: "Mount_driver e d2 drv2 None ?s = Inr (c2, s2)" "calls s2 = calls ?s @ n2"
       "DriverMount_args n2 = [(d2, ''volume'' @ itoa (scast (nextVolumeName ?s)))]" by blast
  have z: "itoa (scast (0 :: 32 word)) = ''0''" "itoa (scast (1 :: 32 word)) = ''1''"
    by (simp_all add: itoa_def)
  have "DriverMount_args (calls s2) = [(d1, ''volume0''), (d2, ''volume1'')]"
    using a(3) b(2,3) u i z by (simp add: DriverMount_args_append)
  with a(1) b(1) show ?thesis by blast
qed

text \<open>The auto-detect overload hands an unnamed mount on to the explicit-driver one.\<close>

lemma Mount_auto_delegates:
  assumes "IsCharDevice dev" and "IdentifyFilesystem e dev = Some drv"
  shows "Mount_auto e dev name s
           = Mount_driver e dev drv name (log_call (IdentifyFilesystem_call dev) s)"
  using assms by (simp add: Mount_auto_def Let_def)

lemma Mount_auto_no_driver:
  assumes "IsCharDevice dev" and "IdentifyFilesystem e dev = None"
  shows "\<exists>s'. Mount_auto e dev name s = Inr (VolumeErrorInvalidFilesystem, s')
           \<and> DriverMount_args (calls s') = DriverMount_args (calls s)
           \<and> nextVolumeName s' = nextVolumeName s \<and> volumes s' = volumes s"
  using assms by (simp add: Mount_auto_def Let_def log_call_def DriverMount_args_append)

lemma Mount_auto_no_name:
  assumes "IsCharDevice dev" and "IdentifyFilesystem e dev = Some drv" and "Identify drv dev"
  shows "\<exists>c s' new. Mount_auto e dev None s = Inr (c, s')
           \<and> calls s' = calls s @ new
           \<and> DriverMount_args new = [(dev, ''volume'' @ itoa (scast (nextVolumeName s)))]
           \<and> nextVolumeName s' = nextVolumeName s + 1"
proof -
  let ?s1 = "log_call (IdentifyFilesystem_call dev) s"
  from Mount_driver_no_name [OF assms(1,3), of e ?s1] obtain c s' new where
    h: "Mount_driver e dev drv None ?s1 = Inr (c, s')" "calls s' = calls ?s1 @ new"
       "DriverMount_args new = [(dev, ''volume'' @ itoa (scast (nextVolumeName ?s1)))]"
       "nextVolumeName s' = nextVolumeName ?s1 + 1" by blast
  let ?new = "IdentifyFilesystem_call dev # new"
  have m: "Mount_auto e dev None s = Inr (c, s')"
    using h(1) by (simp only: Mount_auto_delegates [OF assms(1,2)])
  have c1: "calls s' = calls s @ ?new" using h(2) by (simp add: log_call_def)
  have c2: "DriverMount_args ?new = [(dev, ''volume'' @ itoa (scast (nextVolumeName s)))]"
    using h(3) by (simp add: log_call_def)
  have c3: "nextVolumeName s' = nextVolumeName s + 1" using h(4) by (simp add: log_call_def)
  from m c1 c2 c3 show ?thesis by blast
qed

lemma two_unnamed_auto_mounts:
  assumes "IsCharDevice d1" "IdentifyFilesystem e d1 = Some drv1" "Identify drv1 d1"
    and "IsCharDevice d2" "IdentifyFilesystem e d2 = Some drv2" "Identify drv2 d2"
  shows "\<exists>c1 s1 c2 s2. Mount_auto e d1 None (Initialize mem par) = Inr (c1, s1)
           \<and> Mount_auto e d2 None (unmounts names s1) = Inr (c2, s2)
           \<and> DriverMount_args (calls s2) = [(d1, ''volume0''), (d2, ''volume1'')]"
proof -
  let ?s0 = "Initialize mem par"
  have i: "nextVolumeName ?s0 = 0" "calls ?s0 = []" by (simp_all add: Initialize_def)
  from Mount_auto_no_name [OF assms(1-3), of ?s0] obtain c1 s1 n1 where
    a: "Mount_auto e d1 None ?s0 = Inr (c1, s1)" "calls s1 = calls ?s0 @ n1"
       "DriverMount_args n1 = [(d1, ''volume'' @ itoa (scast (nextVolumeName ?s0)))]"
       "nextVolumeName s1 = nextVolumeName ?s0 + 1" by blast
  let ?s = "unmounts names s1"
  have u: "nextVolumeName ?s = 1" "calls ?s = n1" using a(2,4) i by (simp_all add: unmounts_fields)
  from Mount_auto_no_name [OF assms(4-6), of ?s] obtain c2 s2 n2 where
    b: "Mount_auto e d2 None ?s = Inr (c2, s2)" "calls s2 = calls ?s @ n2"
       "DriverMount_args n2 = [(d2, ''volume'' @ itoa (scast (nextVolumeName ?s)))]" by blast
  have z: "itoa (scast (0 :: 32 word)) = ''0''" "itoa (scast (1 :: 32 word)) = ''1''"
    by (simp_all add: itoa_def)
  have "DriverMount_args (calls s2) = [(d1, ''volume0''), (d2, ''volume1'')]"
    using a(3) b(2,3) u i z by (simp add: DriverMount_args_append)
  with a(1) b(1) show ?thesis by blast
qed

text \<open>
  \<^bold>\<open>C8.\<close> A \<^verbatim>\<open>Mount\<close> without a name that reaches a driver (explicit-driver
  overload: a character device its driver identifies; auto-detect overload: a character
  device for which the identification service returns a driver that identifies it)
  calls the driver once, with the name \<open>volume\<close> followed by the decimal digits of
  \<open>nextVolumeName\<close> (for a counter that is not negative), and leaves the counter one
  higher; the auto-detect overload is the explicit-driver one after the identification
  call; \<open>Unmount\<close> never changes the counter; and from the initialized registry two
  such mounts, through either overload and with any sequence of unmounts between them,
  pass \<open>volume0\<close> and then \<open>volume1\<close> to their drivers.
\<close>

theorem synthetic_volume_names:
  "(\<forall>e dev drv s. IsCharDevice dev \<and> Identify drv dev \<and> 0 \<le> sint (nextVolumeName s) \<longrightarrow>
      (\<exists>c s' new. Mount_driver e dev drv None s = Inr (c, s')
         \<and> calls s' = calls s @ new
         \<and> DriverMount_args new = [(dev, ''volume'' @ decimal (nat (sint (nextVolumeName s))))]
         \<and> nextVolumeName s' = nextVolumeName s + 1))
   \<and> (\<forall>e dev drv s. IsCharDevice dev \<and> IdentifyFilesystem e dev = Some drv \<and> Identify drv dev
          \<and> 0 \<le> sint (nextVolumeName s) \<longrightarrow>
      (\<exists>c s' new. Mount_auto e dev None s = Inr (c, s')
         \<and> calls s' = calls s @ new
         \<and> DriverMount_args new = [(dev, ''volume'' @ decimal (nat (sint (nextVolumeName s))))]
         \<and> nextVolumeName s' = nextVolumeName s + 1))
   \<and> (\<forall>e dev drv name s. IsCharDevice dev \<and> IdentifyFilesystem e dev = Some drv \<longrightarrow>
        Mount_auto e dev name s
          = Mount_driver e dev drv name (log_call (IdentifyFilesystem_call dev) s))
   \<and> (\<forall>name s. nextVolumeName (snd (Unmount name s)) = nextVolumeName s)
   \<and> (\<forall>e d1 drv1 d2 drv2 names mem par.
        IsCharDevice d1 \<and> Identify drv1 d1 \<and> IsCharDevice d2 \<and> Identify drv2 d2 \<longrightarrow>
        (\<exists>c1 s1 c2 s2. Mount_driver e d1 drv1 None (Initialize mem par) = Inr (c1, s1)
           \<and> Mount_driver e d2 drv2 None (unmounts names s1) = Inr (c2, s2)
           \<and> DriverMount_args (calls s2) = [(d1, ''volume0''), (d2, ''volume1'')]))
   \<and> (\<forall>e d1 drv1 d2 drv2 names mem par.
        IsCharDevice d1 \<and> IdentifyFilesystem e d1 = Some drv1 \<and> Identify drv1 d1
        \<and> IsCharDevice d2 \<and> IdentifyFilesystem e d2 = Some drv2 \<and> Identify drv2 d2 \<longrightarrow>
        (\<exists>c1 s1 c2 s2. Mount_auto e d1 None (Initialize mem par) = Inr (c1, s1)
           \<and> Mount_auto e d2 None (unmounts names s1) = Inr (c2, s2)
           \<and> DriverMount_args (calls s2) = [(d1, ''volume0''), (d2, ''volume1'')]))"
proof (intro conjI allI impI)
  fix dev :: FsNode and drv :: FsDriver and e :: env and s :: kernel
  assume "IsCharDevice dev \<and> Identify drv dev \<and> 0 \<le> sint (nextVolumeName s)"
  then have h: "IsCharDevice dev" "Identify drv dev" and k: "0 \<le> sint (nextVolumeName s)"
    by simp_all
  from unat_scast_nonneg [OF k]
  have "itoa (scast (nextVolumeName s)) = decimal (nat (sint (nextVolumeName s)))"
    by (simp only: itoa_def)
  with Mount_driver_no_name [OF h, of e s]
  show "\<exists>c s' new. Mount_driver e dev drv None s = Inr (c, s')
         \<and> calls s' = calls s @ new
         \<and> DriverMount_args new = [(dev, ''volume'' @ decimal (nat (sint (nextVolumeName s))))]
         \<and> nextVolumeName s' = nextVolumeName s + 1"
    by simp
next
  fix dev :: FsNode and drv :: FsDriver and e :: env and s :: kernel
  assume "IsCharDevice dev \<and> IdentifyFilesystem e dev = Some drv \<and> Identify drv dev
          \<and> 0 \<le> sint (nextVolumeName s)"
  then have h: "IsCharDevice dev" "IdentifyFilesystem e dev = Some drv" "Identify drv dev"
    and k: "0 \<le> sint (nextVolumeName s)"
    by simp_all
  from unat_scast_nonneg [OF k]
  have "itoa (scast (nextVolumeName s)) = decimal (nat (sint (nextVolumeName s)))"
    by (simp only: itoa_def)
  with Mount_auto_no_name [OF h, of s]
  show "\<exists>c s' new. Mount_auto e dev None s = Inr (c, s')
         \<and> calls s' = calls s @ new
         \<and> DriverMount_args new = [(dev, ''volume'' @ decimal (nat (sint (nextVolumeName s))))]
         \<and> nextVolumeName s' = nextVolumeName s + 1"
    by simp
next
  fix dev :: FsNode and drv :: FsDriver and e :: env and s :: kernel and name
  assume "IsCharDevice dev \<and> IdentifyFilesystem e dev = Some drv"
  then have h: "IsCharDevice dev" "IdentifyFilesystem e dev = Some drv" by simp_all
  from Mount_auto_delegates [OF h]
  show "Mount_auto e dev name s
          = Mount_driver e dev drv name (log_call (IdentifyFilesystem_call dev) s)" .
next
  fix name and s :: kernel
  show "nextVolumeName (snd (Unmount name s)) = nextVolumeName s"
    by (simp add: Unmount_def Unmount_loop_fields)
next
  fix d1 d2 :: FsNode and drv1 drv2 :: FsDriver and names mem par and e :: env
  assume "IsCharDevice d1 \<and> Identify drv1 d1 \<and> IsCharDevice d2 \<and> Identify drv2 d2"
  then have h: "IsCharDevice d1" "Identify drv1 d1" "IsCharDevice d2" "Identify drv2 d2"
    by simp_all
  from two_unnamed_mounts [OF h]
  show "\<exists>c1 s1 c2 s2. Mount_driver e d1 drv1 None (Initialize mem par) = Inr (c1, s1)
           \<and> Mount_driver e d2 drv2 None (unmounts names s1) = Inr (c2, s2)
           \<and> DriverMount_args (calls s2) = [(d1, ''volume0''), (d2, ''volume1'')]" .
next
  fix d1 d2 :: FsNode and drv1 drv2 :: FsDriver and names mem par and e :: env
  assume "IsCharDevice d1 \<and> IdentifyFilesystem e d1 = Some drv1 \<and> Identify drv1 d1
        \<and> IsCharDevice d2 \<and> IdentifyFilesystem e d2 = Some drv2 \<and> Identify drv2 d2"
  then have h: "IsCharDevice d1" "IdentifyFilesystem e d1 = Some drv1" "Identify drv1 d1"
    "IsCharDevice d2" "IdentifyFilesystem e d2 = Some drv2" "Identify drv2 d2"
    by simp_all
  from two_unnamed_auto_mounts [OF h]
  show "\<exists>c1 s1 c2 s2. Mount_auto e d1 None (Initialize mem par) = Inr (c1, s1)
           \<and> Mount_auto e d2 None (unmounts names s1) = Inr (c2, s2)
           \<and> DriverMount_args (calls s2) = [(d1, ''volume0''), (d2, ''volume1'')]" .
qed

theorem synthetic_volume_names_witness:
  "IsCharDevice (chardev 1) \<and> Identify drv_ok (chardev 1)
   \<and> IsCharDevice (chardev 2) \<and> Identify drv_ok (chardev 2)
   \<and> IdentifyFilesystem dev_env (chardev 2) = Some drv_ok
   \<and> 0 \<le> sint (nextVolumeName fresh)
   \<and> map_sum id (nextVolumeName \<circ> snd) (Mount_driver dev_env (chardev 1) drv_ok None fresh)
        = Inr 1
   \<and> map_sum id (nextVolumeName \<circ> snd) (Mount_auto dev_env (chardev 2) None fresh) = Inr 1
   \<and> volumes (snd (projr (Mount_driver dev_env (chardev 1) drv_ok None fresh))) = [1001]
   \<and> volumes (unmounts [''volume0'']
        (snd (projr (Mount_driver dev_env (chardev 1) drv_ok None fresh)))) = []
   \<and> map_sum id (DriverMount_args \<circ> calls \<circ> snd)
        (Mount_driver dev_env (chardev 2) drv_ok None
           (unmounts [''volume0'']
              (snd (projr (Mount_driver dev_env (chardev 1) drv_ok None fresh)))))
        = Inr [(chardev 1, ''volume0''), (chardev 2, ''volume1'')]
   \<and> map_sum id (DriverMount_args \<circ> calls \<circ> snd)
        (Mount_auto dev_env (chardev 2) None
           (unmounts [''volume0'']
              (snd (projr (Mount_auto dev_env (chardev 2) None fresh)))))
        = Inr [(chardev 2, ''volume0''), (chardev 2, ''volume1'')]"
proof -
  have h: "IsCharDevice (chardev 1) \<and> Identify drv_ok (chardev 1)
      \<and> IsCharDevice (chardev 2) \<and> Identify drv_ok (chardev 2)"
    by (simp add: chardev_def drv_ok_def)
  have g: "IdentifyFilesystem dev_env (chardev 2) = Some drv_ok"
    by (simp add: dev_env_def chardev_def)
  have k: "0 \<le> sint (nextVolumeName fresh)" by (simp add: fresh_def Initialize_def)
  note driver_part = synthetic_volume_names [THEN conjunct1, rule_format]
  note auto_part = synthetic_volume_names [THEN conjunct2, THEN conjunct1, rule_format]
  note driver_twice = synthetic_volume_names
    [THEN conjunct2, THEN conjunct2, THEN conjunct2, THEN conjunct2, THEN conjunct1, rule_format]
  note auto_twice = synthetic_volume_names
    [THEN conjunct2, THEN conjunct2, THEN conjunct2, THEN conjunct2, THEN conjunct2, rule_format]
  from driver_part [of "chardev 1" drv_ok fresh dev_env] h k obtain c s' where
    one: "Mount_driver dev_env (chardev 1) drv_ok None fresh = Inr (c, s')"
      "nextVolumeName s' = nextVolumeName fresh + 1"
    by blast
  then have o: "map_sum id (nextVolumeName \<circ> snd)
      (Mount_driver dev_env (chardev 1) drv_ok None fresh) = Inr 1"
    by (simp add: fresh_def Initialize_def)
  from auto_part [of "chardev 2" dev_env drv_ok fresh] h g k obtain ca sa where
    onea: "Mount_auto dev_env (chardev 2) None fresh = Inr (ca, sa)"
      "nextVolumeName sa = nextVolumeName fresh + 1"
    by blast
  then have oa: "map_sum id (nextVolumeName \<circ> snd)
      (Mount_auto dev_env (chardev 2) None fresh) = Inr 1"
    by (simp add: fresh_def Initialize_def)
  from driver_twice [of "chardev 1" drv_ok "chardev 2" drv_ok dev_env "\<lambda>a. blank_volume"
      "\<lambda>a. None" "[''volume0'']"] h
  obtain c1 s1 c2 s2 where
    two: "Mount_driver dev_env (chardev 1) drv_ok None
            (Initialize (\<lambda>a. blank_volume) (\<lambda>a. None)) = Inr (c1, s1)"
      "Mount_driver dev_env (chardev 2) drv_ok None (unmounts [''volume0''] s1) = Inr (c2, s2)"
      "DriverMount_args (calls s2) = [(chardev 1, ''volume0''), (chardev 2, ''volume1'')]"
    by blast
  from auto_twice [of "chardev 2" dev_env drv_ok "chardev 2" drv_ok "\<lambda>a. blank_volume"
      "\<lambda>a. None" "[''volume0'']"] h g
  obtain a1 t1 a2 t2 where
    twoa: "Mount_auto dev_env (chardev 2) None
            (Initialize (\<lambda>a. blank_volume) (\<lambda>a. None)) = Inr (a1, t1)"
      "Mount_auto dev_env (chardev 2) None (unmounts [''volume0''] t1) = Inr (a2, t2)"
      "DriverMount_args (calls t2) = [(chardev 2, ''volume0''), (chardev 2, ''volume1'')]"
    by blast
  from two(1) have p: "snd (projr (Mount_driver dev_env (chardev 1) drv_ok None fresh)) = s1"
    by (simp add: fresh_def)
  from twoa(1) have pa: "snd (projr (Mount_auto dev_env (chardev 2) None fresh)) = t1"
    by (simp add: fresh_def)
  have m: "map_sum id (DriverMount_args \<circ> calls \<circ> snd)
        (Mount_driver dev_env (chardev 2) drv_ok None
           (unmounts [''volume0'']
              (snd (projr (Mount_driver dev_env (chardev 1) drv_ok None fresh)))))
        = Inr [(chardev 1, ''volume0''), (chardev 2, ''volume1'')]"
    unfolding p using two(2,3) by simp
  have ma: "map_sum id (DriverMount_args \<circ> calls \<circ> snd)
        (Mount_auto dev_env (chardev 2) None
           (unmounts [''volume0'']
              (snd (projr (Mount_auto dev_env (chardev 2) None fresh)))))
        = Inr [(chardev 2, ''volume0''), (chardev 2, ''volume1'')]"
    unfolding pa using twoa(2,3) by simp
  have s1: "volumes s1 = [1001]" "mountPointDirent_name (vol s1 1001) = ''volume0''"
    using two(1)
    by (auto simp: Mount_driver_def Mount_finish_def RegisterVolume_def log_call_def Let_def
          Initialize_def chardev_def drv_ok_def itoa_def)
  then have u: "volumes (unmounts [''volume0''] s1) = []"
    by (simp add: Unmount_def UnregisterVolume_def)
  from h g k o oa m ma s1(1) u show ?thesis unfolding p by blast
qed

end
